theory Spec2Isabelle
  imports Main
begin

section \<open>Python values and strings\<close>

text \<open>
  The exporter (\<^verbatim>\<open>fulcrum_to_google_drive.py\<close>) handles JSON dictionaries from the
  Fulcrum and Slack APIs. A dictionary is an association list read with \<open>map_of\<close>;
  \<open>truthy\<close> is Python's truth value of \<^verbatim>\<open>d.get(k)\<close>. Strings are lists of
  code points below 256.
\<close>

datatype json = JNull | JBool bool | JNum int | JStr string

type_synonym jdict = "(string \<times> json) list"

fun truthy :: "json option \<Rightarrow> bool" where
  "truthy None = False"
| "truthy (Some JNull) = False"
| "truthy (Some (JBool b)) = b"
| "truthy (Some (JNum n)) = (n \<noteq> 0)"
| "truthy (Some (JStr s)) = (s \<noteq> [])"

text \<open>\<^verbatim>\<open>sub in s\<close> on strings.\<close>

fun contains :: "string \<Rightarrow> string \<Rightarrow> bool" where
  "contains sub [] = (sub = [])"
| "contains sub (c # cs) = (take (length sub) (c # cs) = sub \<or> contains sub cs)"

text \<open>\<^verbatim>\<open>s.rsplit('.', 1)[0]\<close>: the part before the last dot, the whole string when
  there is none.\<close>

definition rsplit_dot_head :: "string \<Rightarrow> string" where
  "rsplit_dot_head s =
     (if CHR ''.'' \<in> set s then rev (tl (dropWhile (\<lambda>c. c \<noteq> CHR ''.'') (rev s))) else s)"

definition isspace :: "char \<Rightarrow> bool" where
  "isspace c = ((of_char c :: nat) \<in> {9, 10, 11, 12, 13, 28, 29, 30, 31, 32, 133, 160})"

definition strip :: "string \<Rightarrow> string" where
  "strip s = rev (dropWhile isspace (rev (dropWhile isspace s)))"

definition lower_char :: "char \<Rightarrow> char" where
  "lower_char c =
     (let n = (of_char c :: nat)
      in if (65 \<le> n \<and> n \<le> 90) \<or> (192 \<le> n \<and> n \<le> 222 \<and> n \<noteq> 215)
         then char_of (n + 32) else c)"

definition lower :: "string \<Rightarrow> string" where
  "lower s = map lower_char s"

section \<open>Exceptions, the outside world and the exporter's state\<close>

text \<open>
  \<open>HttpError\<close> is googleapiclient's error with its status. \<open>ConnError\<close> stands for
  \<^verbatim>\<open>ssl.SSLError\<close>, \<^verbatim>\<open>requests.exceptions.SSLError\<close> and
  \<^verbatim>\<open>requests.exceptions.ConnectionError\<close>, which the downloads retry;
  \<open>RequestError\<close> for any other \<^verbatim>\<open>requests.exceptions.RequestException\<close> or
  \<^verbatim>\<open>OSError\<close> (an HTTP error status from Fulcrum, a timeout). Both are instances of
  \<^verbatim>\<open>OSError\<close>. \<open>OtherError\<close> is any other exception. The string is
  \<^verbatim>\<open>str(e)\<close>.
\<close>

datatype exn = HttpError nat string | ConnError string | RequestError string | OtherError string

fun is_oserror :: "exn \<Rightarrow> bool" where
  "is_oserror (ConnError m) = True"
| "is_oserror (RequestError m) = True"
| "is_oserror e = False"

fun exn_str :: "exn \<Rightarrow> string" where
  "exn_str (HttpError s m) = m"
| "exn_str (ConnError m) = m"
| "exn_str (RequestError m) = m"
| "exn_str (OtherError m) = m"

text \<open>Every request that leaves the process, in the order it is made.\<close>

datatype call =
    DriveInit
  | DriveList string
  | DriveFind string string
  | DriveCreate string string string
  | DriveDelete string
  | FulcrumForms
  | FulcrumLayers
  | FulcrumSchema string
  | FulcrumRecords string
  | FulcrumPhotosBatch string
  | FulcrumPhotoMeta string
  | FulcrumPhoto string
  | SlackPost string
  | SlackHistory string

record drive_file =
  f_id :: string
  f_name :: string
  f_mime :: string
  f_parent :: string

record slack_msg =
  m_bot :: bool
  m_ts :: string
  m_text :: string

text \<open>An asset reference as \<^verbatim>\<open>extract_photo_ids\<close> builds it, with the keys that
  \<^verbatim>\<open>_process_single_photo\<close> adds to the same dictionary (each field is the key of
  that name, prefixed).\<close>

record photo =
  p_photo_id :: string
  p_record_id :: string
  p_field_path :: string
  p_caption :: string
  p_error :: "string option"
  p_success :: "bool option"
  p_photo_data :: "jdict option"
  p_filename :: "string option"

record fulcrum_record =
  rec_id :: string
  rec_photos :: "photo list"

record form =
  fm_id :: string
  fm_name :: string
  fm_is_active :: bool

record stats =
  forms_processed :: nat
  photos_uploaded :: nat
  photos_skipped :: nat
  photos_failed :: nat
  photos_deleted :: nat
  geojson_uploaded :: nat
  total_records :: nat
  layers_uploaded :: nat

record export_state =
  st_form_index :: nat
  st_total_forms :: nat
  st_stats :: stats
  st_needs_continuation :: bool

record skipped_form =
  sk_form :: string
  sk_reason :: string
  sk_photos :: nat

text \<open>
  The environment answers the \<open>n\<close>-th request of a run: whether it raises, how long it
  takes (milliseconds), and what it returns. Theorems quantify over every environment.
\<close>

record env =
  fails :: "nat \<Rightarrow> exn option"
  latency :: "nat \<Rightarrow> nat"
  new_id :: "nat \<Rightarrow> string"
  photo_bytes :: "nat \<Rightarrow> string"
  photo_json :: "nat \<Rightarrow> jdict"
  records_reply :: "nat \<Rightarrow> fulcrum_record list"
  photos_reply :: "nat \<Rightarrow> (string \<times> jdict) list"
  forms_reply :: "nat \<Rightarrow> form list"
  layers_reply :: "nat \<Rightarrow> (string \<times> string) list"
  slack_ts :: "nat \<Rightarrow> string option"
  slack_messages :: "nat \<Rightarrow> slack_msg list option"
  init_reply :: "nat \<Rightarrow> (string \<times> string \<times> string) option"

text \<open>The constructor's arguments and the Slack environment variables.\<close>

record config =
  skip_deletions :: bool
  auto_delete :: bool
  quick_check :: bool
  slack_enabled :: bool
  pre_approved_forms :: "string set"
  timeout_seconds :: nat

text \<open>
  The state a run reads and writes: the clock (in milliseconds), the log of requests, the
  files of the target store, the attributes of \<^verbatim>\<open>FulcrumToDriveExporter\<close>, and the three
  files it keeps beside the script (each \<open>None\<close> when the file does not exist). A Python
  set that the code iterates is a duplicate-free list. Of the program's log output one
  line is kept, as a count: the warning \<^verbatim>\<open>Photo uploads stalled\<close> of line 1640.
\<close>

record world =
  now :: nat
  calls :: "call list"
  drive :: "drive_file list"
  drive_folder_id :: string
  active_forms_id :: string
  inactive_forms_id :: string
  folder_cache :: "string \<rightharpoonup> string"
  contents_cache :: "string \<rightharpoonup> string list"
  new_folders :: "string set"
  uploaded_photos :: "string list"
  run_stats :: stats
  failed_forms :: "string list"
  export_cancelled :: bool
  skipped_forms :: "skipped_form list"
  current_form_index :: nat
  export_start_time :: "nat option"
  state_file :: "export_state option"
  progress_file :: "string list option"
  skipped_forms_file :: "skipped_form list option"
  stall_warnings :: nat

type_synonym 'a prog = "world \<Rightarrow> (exn + 'a) \<times> world"

definition ret :: "'a \<Rightarrow> 'a prog" where
  "ret x = (\<lambda>w. (Inr x, w))"

definition bnd :: "'a prog \<Rightarrow> ('a \<Rightarrow> 'b prog) \<Rightarrow> 'b prog" where
  "bnd m f = (\<lambda>w. case m w of (Inl e, w') \<Rightarrow> (Inl e, w') | (Inr x, w') \<Rightarrow> f x w')"

definition sleep :: "nat \<Rightarrow> world \<Rightarrow> world" where
  "sleep ms w = w\<lparr>now := now w + ms\<rparr>"

definition external :: "env \<Rightarrow> call \<Rightarrow> world \<Rightarrow> exn option \<times> world" where
  "external env c w =
     (fails env (length (calls w)),
      w\<lparr>calls := calls w @ [c], now := now w + latency env (length (calls w))\<rparr>)"

subsection \<open>The target store\<close>

text \<open>
  \<^verbatim>\<open>files().list(q=...)\<close> with its pagination loop is one request that returns every
  match; \<^verbatim>\<open>files().create\<close> adds an object under an identifier the store chooses, and
  a request that raises leaves the store as it was.
\<close>

definition folder_mime :: string where
  "folder_mime = ''application/vnd.google-apps.folder''"

definition files_list :: "env \<Rightarrow> call \<Rightarrow> (drive_file \<Rightarrow> bool) \<Rightarrow> drive_file list prog" where
  "files_list env c q w =
     (case external env c w of
        (Some e, w') \<Rightarrow> (Inl e, w')
      | (None, w') \<Rightarrow> (Inr (filter q (drive w')), w'))"

definition files_create :: "env \<Rightarrow> string \<Rightarrow> string \<Rightarrow> string \<Rightarrow> string prog" where
  "files_create env name mime parent w =
     (case external env (DriveCreate name mime parent) w of
        (Some e, w') \<Rightarrow> (Inl e, w')
      | (None, w') \<Rightarrow>
          (let i = new_id env (length (calls w))
           in (Inr i, w'\<lparr>drive := drive w' @
                 [\<lparr>f_id = i, f_name = name, f_mime = mime, f_parent = parent\<rparr>]\<rparr>)))"

definition files_delete :: "env \<Rightarrow> string \<Rightarrow> unit prog" where
  "files_delete env file_id w =
     (case external env (DriveDelete file_id) w of
        (Some e, w') \<Rightarrow> (Inl e, w')
      | (None, w') \<Rightarrow> (Inr (), w'\<lparr>drive := filter (\<lambda>f. f_id f \<noteq> file_id) (drive w')\<rparr>))"

section \<open>Target location cache\<close>

definition cache_key :: "string \<Rightarrow> string \<Rightarrow> string" where
  "cache_key parent_id name = parent_id @ ''/'' @ name"

definition get_or_create_folder :: "env \<Rightarrow> string \<Rightarrow> string \<Rightarrow> string prog" where
  "get_or_create_folder env name parent_id w =
     (case folder_cache w (cache_key parent_id name) of
        Some i \<Rightarrow> (Inr i, w)
      | None \<Rightarrow>
          (case files_list env (DriveFind name parent_id)
                  (\<lambda>f. f_name f = name \<and> f_mime f = folder_mime \<and> f_parent f = parent_id) w of
             (Inl e, w1) \<Rightarrow> (Inl e, w1)
           | (Inr (f # fs), w1) \<Rightarrow>
               (Inr (f_id f),
                w1\<lparr>folder_cache := (folder_cache w1)(cache_key parent_id name \<mapsto> f_id f)\<rparr>)
           | (Inr [], w1) \<Rightarrow>
               (case files_create env name folder_mime parent_id w1 of
                  (Inl e, w2) \<Rightarrow> (Inl e, w2)
                | (Inr i, w2) \<Rightarrow>
                    (Inr i,
                     w2\<lparr>folder_cache := (folder_cache w2)(cache_key parent_id name \<mapsto> i),
                        new_folders := insert i (new_folders w2)\<rparr>))))"

definition list_drive_folder_contents :: "env \<Rightarrow> string \<Rightarrow> bool \<Rightarrow> string list prog" where
  "list_drive_folder_contents env folder_id use_cache w =
     (case (if use_cache then contents_cache w folder_id else None) of
        Some names \<Rightarrow> (Inr names, w)
      | None \<Rightarrow>
          if folder_id \<in> new_folders w
          then (Inr [], w\<lparr>contents_cache := (contents_cache w)(folder_id \<mapsto> [])\<rparr>)
          else
            (case files_list env (DriveList folder_id) (\<lambda>f. f_parent f = folder_id) w of
               (Inl e, w1) \<Rightarrow> (Inl e, w1)
             | (Inr fs, w1) \<Rightarrow>
                 (let all_files = remdups (map f_name fs)
                  in (Inr all_files,
                      if use_cache
                      then w1\<lparr>contents_cache := (contents_cache w1)(folder_id \<mapsto> all_files)\<rparr>
                      else w1))))"

section \<open>Orphan reconciler\<close>

text \<open>The loop of \<^verbatim>\<open>identify_orphaned_photos\<close> over the listing.\<close>

fun orphaned_loop :: "string set \<Rightarrow> string list \<Rightarrow> string list" where
  "orphaned_loop valid_photo_ids [] = []"
| "orphaned_loop valid_photo_ids (filename # rest) =
     (if CHR ''.'' \<in> set filename
      then (if rsplit_dot_head filename \<notin> valid_photo_ids
            then filename # orphaned_loop valid_photo_ids rest
            else orphaned_loop valid_photo_ids rest)
      else orphaned_loop valid_photo_ids rest)"

definition identify_orphaned_photos ::
  "env \<Rightarrow> string \<Rightarrow> (string \<times> jdict) list \<Rightarrow> string list prog" where
  "identify_orphaned_photos env photos_folder_id photo_metadata_cache w =
     (case list_drive_folder_contents env photos_folder_id True w of
        (Inl e, w1) \<Rightarrow> (Inl e, w1)
      | (Inr existing_in_drive, w1) \<Rightarrow>
          if existing_in_drive = [] then (Inr [], w1)
          else (Inr (orphaned_loop (set (map fst photo_metadata_cache)) existing_in_drive), w1))"

text \<open>\<^verbatim>\<open>file_id_map[name] = id\<close>: a later entry of the same name replaces the
  identifier and keeps the place of the first.\<close>

fun dict_put :: "string \<Rightarrow> string \<Rightarrow> (string \<times> string) list \<Rightarrow> (string \<times> string) list" where
  "dict_put k v [] = [(k, v)]"
| "dict_put k v ((k', v') # kvs) =
     (if k = k' then (k, v) # kvs else (k', v') # dict_put k v kvs)"

fun build_file_id_map ::
  "string list \<Rightarrow> drive_file list \<Rightarrow> (string \<times> string) list \<Rightarrow> (string \<times> string) list" where
  "build_file_id_map filenames [] m = m"
| "build_file_id_map filenames (f # fs) m =
     build_file_id_map filenames fs
       (if f_name f \<in> set filenames then dict_put (f_name f) (f_id f) m else m)"

fun delete_by_id :: "env \<Rightarrow> (string \<times> string) list \<Rightarrow> nat \<Rightarrow> nat prog" where
  "delete_by_id env [] deleted w = (Inr deleted, w)"
| "delete_by_id env ((name, file_id) # rest) deleted w =
     (case files_delete env file_id w of
        (Inl (HttpError s m), w1) \<Rightarrow> delete_by_id env rest deleted w1
      | (Inl e, w1) \<Rightarrow> (Inl e, w1)
      | (Inr u, w1) \<Rightarrow> delete_by_id env rest (deleted + 1) w1)"

definition delete_photos_from_drive :: "env \<Rightarrow> string list \<Rightarrow> string \<Rightarrow> nat prog" where
  "delete_photos_from_drive env filenames photos_folder_id w =
     (case files_list env (DriveList photos_folder_id) (\<lambda>f. f_parent f = photos_folder_id) w of
        (Inl e, w1) \<Rightarrow> (Inl e, w1)
      | (Inr fs, w1) \<Rightarrow>
          (case delete_by_id env (build_file_id_map filenames fs []) 0 w1 of
             (Inl e, w2) \<Rightarrow> (Inl e, w2)
           | (Inr deleted, w2) \<Rightarrow>
               (Inr deleted, w2\<lparr>contents_cache := (contents_cache w2)(photos_folder_id := None)\<rparr>)))"

section \<open>Checkpoint store: the transferred-photo set\<close>

text \<open>Writing a local file is taken to succeed (the code logs and ignores a failure);
  the timestamp written beside the list is left out.\<close>

definition save_photo_progress :: "world \<Rightarrow> world" where
  "save_photo_progress w = w\<lparr>progress_file := Some (uploaded_photos w)\<rparr>"

definition record_photo_uploaded :: "string \<Rightarrow> world \<Rightarrow> world" where
  "record_photo_uploaded photo_id w =
     (let w1 = w\<lparr>uploaded_photos := List.insert photo_id (uploaded_photos w)\<rparr>
      in if length (uploaded_photos w1) mod 100 = 0 then save_photo_progress w1 else w1)"

definition is_photo_uploaded :: "world \<Rightarrow> string \<Rightarrow> bool" where
  "is_photo_uploaded w photo_id = (photo_id \<in> set (uploaded_photos w))"

section \<open>Asset transfer pipeline\<close>

text \<open>
  The downloads return the tuple \<^verbatim>\<open>(content, ext, error, photo_data)\<close>. The extension
  comes from \<^verbatim>\<open>'png' in photo_data.get('content_type', '')\<close>, which raises a TypeError on
  a content type that is not a string.
\<close>

type_synonym download = "string option \<times> string option \<times> string option \<times> jdict option"

definition ext_of :: "jdict \<Rightarrow> exn + string" where
  "ext_of photo_data =
     (case map_of photo_data ''content_type'' of
        None \<Rightarrow> Inr ''jpg''
      | Some (JStr content_type) \<Rightarrow> Inr (if contains ''png'' content_type then ''png'' else ''jpg'')
      | Some other \<Rightarrow> Inl (OtherError ''argument is not iterable''))"

definition rejection :: "jdict \<Rightarrow> string option" where
  "rejection photo_data =
     (if truthy (map_of photo_data ''deleted_at'') then Some ''Photo deleted''
      else if \<not> truthy (map_of photo_data ''stored'') then Some ''Photo not stored''
      else if \<not> truthy (map_of photo_data ''processed'') then Some ''Photo not processed''
      else None)"

text \<open>The message after the last attempt; \<^verbatim>\<open>max_retries\<close> is 3 in both downloads.\<close>

definition retries_exhausted :: "string option \<Rightarrow> string" where
  "retries_exhausted last_error =
     ''SSL/Connection error after 3 retries: ''
       @ (case last_error of None \<Rightarrow> ''None'' | Some m \<Rightarrow> m)"

text \<open>The loop \<^verbatim>\<open>for attempt in range(max_retries)\<close> of
  \<^verbatim>\<open>download_photo_with_metadata\<close>, over the attempts still to make.\<close>

fun download_attempts ::
  "env \<Rightarrow> string \<Rightarrow> string \<Rightarrow> jdict \<Rightarrow> nat \<Rightarrow> nat list \<Rightarrow> string option \<Rightarrow> world
     \<Rightarrow> download \<times> world" where
  "download_attempts env photo_id ext photo_data max_retries [] last_error w =
     ((None, None, Some (retries_exhausted last_error), None), w)"
| "download_attempts env photo_id ext photo_data max_retries (attempt # rest) last_error w =
     (case external env (FulcrumPhoto photo_id) w of
        (None, w1) \<Rightarrow>
          ((Some (photo_bytes env (length (calls w))), Some ext, None, Some photo_data), w1)
      | (Some (ConnError m), w1) \<Rightarrow>
          download_attempts env photo_id ext photo_data max_retries rest (Some m)
            (if attempt < max_retries - 1 then sleep (1000 * (attempt + 1)) w1 else w1)
      | (Some e, w1) \<Rightarrow> ((None, None, Some (exn_str e), None), w1))"

definition download_photo_with_metadata :: "env \<Rightarrow> string \<Rightarrow> jdict \<Rightarrow> download prog" where
  "download_photo_with_metadata env photo_id photo_data w =
     (case rejection photo_data of
        Some reason \<Rightarrow> (Inr (None, None, Some reason, None), w)
      | None \<Rightarrow>
          (case ext_of photo_data of
             Inl e \<Rightarrow> (Inl e, w)
           | Inr ext \<Rightarrow>
               (case download_attempts env photo_id ext photo_data 3 [0..<3] None w of
                  (d, w1) \<Rightarrow> (Inr d, w1))))"

text \<open>\<^verbatim>\<open>download_photo_to_memory\<close> fetches the metadata itself, inside the \<^verbatim>\<open>try\<close>
  of each attempt.\<close>

fun memory_attempts ::
  "env \<Rightarrow> string \<Rightarrow> nat \<Rightarrow> nat list \<Rightarrow> string option \<Rightarrow> world \<Rightarrow> download \<times> world" where
  "memory_attempts env photo_id max_retries [] last_error w =
     ((None, None, Some (retries_exhausted last_error), None), w)"
| "memory_attempts env photo_id max_retries (attempt # rest) last_error w =
     (case external env (FulcrumPhotoMeta photo_id) w of
        (Some (ConnError m), w1) \<Rightarrow>
          memory_attempts env photo_id max_retries rest (Some m)
            (if attempt < max_retries - 1 then sleep (1000 * (attempt + 1)) w1 else w1)
      | (Some e, w1) \<Rightarrow> ((None, None, Some (exn_str e), None), w1)
      | (None, w1) \<Rightarrow>
          (let photo_data = photo_json env (length (calls w))
           in case rejection photo_data of
                Some reason \<Rightarrow> ((None, None, Some reason, None), w1)
              | None \<Rightarrow>
                  (case ext_of photo_data of
                     Inl e \<Rightarrow> ((None, None, Some (exn_str e), None), w1)
                   | Inr ext \<Rightarrow>
                       (case external env (FulcrumPhoto photo_id) w1 of
                          (None, w2) \<Rightarrow>
                            ((Some (photo_bytes env (length (calls w1))), Some ext, None,
                              Some photo_data), w2)
                        | (Some (ConnError m), w2) \<Rightarrow>
                            memory_attempts env photo_id max_retries rest (Some m)
                              (if attempt < max_retries - 1
                               then sleep (1000 * (attempt + 1)) w2 else w2)
                        | (Some e, w2) \<Rightarrow> ((None, None, Some (exn_str e), None), w2)))))"

definition download_photo_to_memory :: "env \<Rightarrow> string \<Rightarrow> download prog" where
  "download_photo_to_memory env photo_id w =
     (case memory_attempts env photo_id 3 [0..<3] None w of (d, w1) \<Rightarrow> (Inr d, w1))"

text \<open>
  \<^verbatim>\<open>_upload_to_drive\<close>: one \<^verbatim>\<open>files().create\<close> per attempt, no existence check.
  Statuses 429, 403, 500 and 503 back off and try again, an \<^verbatim>\<open>OSError\<close> tries again
  until the last attempt, any other HttpError gives up, any other exception propagates.
  \<^verbatim>\<open>len(content)\<close> raises when the content is \<^verbatim>\<open>None\<close>.
\<close>

fun upload_attempts ::
  "env \<Rightarrow> string \<Rightarrow> string \<Rightarrow> string \<Rightarrow> nat \<Rightarrow> nat list \<Rightarrow> bool prog" where
  "upload_attempts env name parent_id mime_type max_retries [] w = (Inr False, w)"
| "upload_attempts env name parent_id mime_type max_retries (attempt # rest) w =
     (case files_create env name mime_type parent_id w of
        (Inr i, w1) \<Rightarrow> (Inr True, w1)
      | (Inl (HttpError status m), w1) \<Rightarrow>
          if status \<in> {429, 403, 500, 503}
          then upload_attempts env name parent_id mime_type max_retries rest
                 (sleep (1000 * 2 ^ attempt + 500 * attempt) w1)
          else (Inr False, w1)
      | (Inl (OtherError m), w1) \<Rightarrow> (Inl (OtherError m), w1)
      | (Inl e, w1) \<Rightarrow>
          if attempt < max_retries - 1
          then upload_attempts env name parent_id mime_type max_retries rest
                 (sleep (1000 * (attempt + 1)) w1)
          else (Inr False, w1))"

definition upload_to_drive ::
  "env \<Rightarrow> string option \<Rightarrow> string \<Rightarrow> string \<Rightarrow> string \<Rightarrow> bool prog" where
  "upload_to_drive env content name parent_id mime_type w =
     (case content of
        None \<Rightarrow> (Inl (OtherError ''object of type NoneType has no len()''), w)
      | Some bytes \<Rightarrow> upload_attempts env name parent_id mime_type 3 [0..<3] w)"

definition process_single_photo ::
  "env \<Rightarrow> photo \<Rightarrow> string \<Rightarrow> (string \<times> jdict) list \<Rightarrow> photo prog" where
  "process_single_photo env photo photos_folder_id photo_metadata_cache w =
     (let photo_id = p_photo_id photo in
      case (case map_of photo_metadata_cache photo_id of
              Some photo_data \<Rightarrow> download_photo_with_metadata env photo_id photo_data w
            | None \<Rightarrow> download_photo_to_memory env photo_id w) of
        (Inl e, w1) \<Rightarrow> (Inl e, w1)
      | (Inr (content, ext, err, photo_data), w1) \<Rightarrow>
          if err \<noteq> None \<and> err \<noteq> Some []
          then (Inr (photo\<lparr>p_error := err, p_success := Some False\<rparr>), w1)
          else
            (let name = photo_id @ ''.'' @ (case ext of Some e \<Rightarrow> e | None \<Rightarrow> ''None'');
                 mime_type = (if ext = Some ''png'' then ''image/png'' else ''image/jpeg'')
             in case upload_to_drive env content name photos_folder_id mime_type w1 of
                  (Inl e, w2) \<Rightarrow> (Inl e, w2)
                | (Inr False, w2) \<Rightarrow>
                    (Inr (photo\<lparr>p_error := Some ''Upload failed'', p_success := Some False\<rparr>), w2)
                | (Inr True, w2) \<Rightarrow>
                    (Inr (photo\<lparr>p_success := Some True, p_photo_data := photo_data,
                                p_filename := Some name\<rparr>),
                     record_photo_uploaded photo_id w2)))"

text \<open>
  \<^verbatim>\<open>_download_and_upload_photos\<close>, on Python 3.11 or later, where the \<^verbatim>\<open>TimeoutError\<close>
  that \<^verbatim>\<open>as_completed\<close> raises is the builtin one its handler names. The pool is
  modelled with one worker in flight at a time, in the order submitted; the clock is the
  one the requests and back-offs of the workers advance.

  The dispatcher waits until 300 s after the call (\<^verbatim>\<open>as_completed(..., timeout=300)\<close>,
  line 1601). A worker that ends by then is recorded by the loop body: its result, or
  its photo marked failed when it raised. When the worker in flight is still running
  at the deadline, the handler of lines 1637-1647 logs the stall and marks that photo
  and every photo still queued \<^verbatim>\<open>Stalled (worker hung)\<close>, appends them to both lists
  and cancels their futures. A queued photo never starts. The worker in flight cannot
  be cancelled: the pool waits for it on leaving the \<^verbatim>\<open>with\<close> block, so its requests,
  its object in the store and its entry in the transferred set still happen, and what
  it writes into its photo dictionary lands in the entry the handler has already put
  in both lists.

  \<^verbatim>\<open>future.result(timeout=120)\<close> is called on a finished future and never waits; no
  worker of the model raises a \<^verbatim>\<open>TimeoutError\<close>. The token refresh every 100 photos is
  not part of the model.
\<close>

definition stalled :: "photo \<Rightarrow> photo" where
  "stalled photo = photo\<lparr>p_error := Some ''Stalled (worker hung)'', p_success := Some False\<rparr>"

text \<open>The dictionary of the photo in flight at the deadline, once its worker has ended:
  a success leaves the handler's error text beside \<^verbatim>\<open>success = True\<close>, a failure
  overwrites both fields, an exception is lost with the future.\<close>

definition stalled_in_flight :: "photo \<Rightarrow> exn + photo \<Rightarrow> photo" where
  "stalled_in_flight photo r =
     (case r of
        Inr result \<Rightarrow>
          if p_success result = Some True
          then result\<lparr>p_error := Some ''Stalled (worker hung)''\<rparr> else result
      | Inl e \<Rightarrow> stalled photo)"

fun download_and_upload_loop ::
  "env \<Rightarrow> nat \<Rightarrow> photo list \<Rightarrow> string \<Rightarrow> (string \<times> jdict) list \<Rightarrow> photo list \<Rightarrow> photo list
     \<Rightarrow> world \<Rightarrow> (photo list \<times> photo list) \<times> world" where
  "download_and_upload_loop env deadline [] folder cache all_results failed w =
     ((all_results, failed), w)"
| "download_and_upload_loop env deadline (photo # rest) folder cache all_results failed w =
     (case process_single_photo env photo folder cache w of
        (r, w1) \<Rightarrow>
          if deadline < now w1
          then (let pending = stalled_in_flight photo r # map stalled rest
                in ((all_results @ pending, failed @ pending),
                    w1\<lparr>stall_warnings := stall_warnings w1 + 1\<rparr>))
          else
            (case r of
               Inr result \<Rightarrow>
                 download_and_upload_loop env deadline rest folder cache (all_results @ [result])
                   (if p_success result = Some True then failed else failed @ [result]) w1
             | Inl e \<Rightarrow>
                 (let failed_photo = photo\<lparr>p_error := Some (exn_str e), p_success := Some False\<rparr>
                  in download_and_upload_loop env deadline rest folder cache
                       (all_results @ [failed_photo]) (failed @ [failed_photo]) w1)))"

definition download_and_upload_photos ::
  "env \<Rightarrow> photo list \<Rightarrow> string \<Rightarrow> (string \<times> jdict) list \<Rightarrow> world
     \<Rightarrow> (photo list \<times> photo list) \<times> world" where
  "download_and_upload_photos env photos photos_folder_id photo_metadata_cache w =
     download_and_upload_loop env (now w + 300000) photos photos_folder_id photo_metadata_cache
       [] [] w"

text \<open>
  The skip rule of \<^verbatim>\<open>export_form\<close> (lines 1372-1382) and its retry loop (lines
  1408-1433). The loop returns \<^verbatim>\<open>uploaded\<close>, \<^verbatim>\<open>failed_photos\<close>,
  \<^verbatim>\<open>all_photo_results\<close> and \<^verbatim>\<open>retry_count\<close> as they stand when it ends; on the
  \<^verbatim>\<open>break\<close> the assignment \<^verbatim>\<open>failed_photos = still_failed\<close> is not reached.
\<close>

definition photos_to_download :: "photo list \<Rightarrow> string list \<Rightarrow> world \<Rightarrow> photo list" where
  "photos_to_download all_photos existing_photos w =
     filter (\<lambda>photo. \<not> (p_photo_id photo @ ''.jpg'' \<in> set existing_photos
                         \<or> p_photo_id photo @ ''.png'' \<in> set existing_photos)
                     \<and> \<not> is_photo_uploaded w (p_photo_id photo)) all_photos"

function retry_failed ::
  "env \<Rightarrow> string \<Rightarrow> (string \<times> jdict) list \<Rightarrow> nat \<Rightarrow> nat \<Rightarrow> photo list \<Rightarrow> nat \<Rightarrow> photo list \<Rightarrow> world
     \<Rightarrow> (nat \<times> photo list \<times> photo list \<times> nat) \<times> world" where
  "retry_failed env folder cache retry_count previous_failed_count failed_photos uploaded
       all_photo_results w =
     (if failed_photos \<noteq> [] \<and> retry_count < 3
      then
        (case download_and_upload_photos env failed_photos folder cache w of
           ((retry_results, still_failed), w1) \<Rightarrow>
             (let uploaded' = uploaded + (length failed_photos - length still_failed);
                  results' = all_photo_results @ filter (\<lambda>r. p_success r = Some True) retry_results
              in if length still_failed \<ge> previous_failed_count
                 then (if retry_count + 1 \<ge> 2
                       then ((uploaded', failed_photos, results', retry_count + 1), w1)
                       else retry_failed env folder cache (retry_count + 1) previous_failed_count
                              still_failed uploaded' results' w1)
                 else retry_failed env folder cache (retry_count + 1) (length still_failed)
                        still_failed uploaded' results' w1))
      else ((uploaded, failed_photos, all_photo_results, retry_count), w))"
  by pat_completeness auto
termination
  by (relation "measure (\<lambda>(env, folder, cache, retry_count, rest). 3 - retry_count)") auto

declare retry_failed.simps [simp del]

definition download_missing_photos ::
  "env \<Rightarrow> photo list \<Rightarrow> string \<Rightarrow> (string \<times> jdict) list \<Rightarrow> world
     \<Rightarrow> (nat \<times> photo list \<times> photo list \<times> nat) \<times> world" where
  "download_missing_photos env to_download folder cache w =
     (if to_download \<noteq> []
      then (case download_and_upload_photos env to_download folder cache w of
              ((all_photo_results, failed_photos), w1) \<Rightarrow>
                retry_failed env folder cache 0 (length failed_photos) failed_photos
                  (length to_download - length failed_photos) all_photo_results w1)
      else ((0, [], [], 0), w))"

section \<open>Approval gate\<close>

text \<open>
  \<^verbatim>\<open>send_slack_message\<close> and \<^verbatim>\<open>get_slack_messages_since\<close> swallow every exception.
  The texts of the messages are abridged; nothing depends on them.
\<close>

definition send_slack_message :: "config \<Rightarrow> env \<Rightarrow> string \<Rightarrow> world \<Rightarrow> string option \<times> world" where
  "send_slack_message cfg env text w =
     (if \<not> slack_enabled cfg then (None, w)
      else (case external env (SlackPost text) w of
              (Some e, w1) \<Rightarrow> (None, w1)
            | (None, w1) \<Rightarrow> (slack_ts env (length (calls w)), w1)))"

definition get_slack_messages_since ::
  "config \<Rightarrow> env \<Rightarrow> string \<Rightarrow> world \<Rightarrow> slack_msg list \<times> world" where
  "get_slack_messages_since cfg env oldest_ts w =
     (if \<not> slack_enabled cfg then ([], w)
      else (case external env (SlackHistory oldest_ts) w of
              (Some e, w1) \<Rightarrow> ([], w1)
            | (None, w1) \<Rightarrow>
                (case slack_messages env (length (calls w)) of
                   None \<Rightarrow> ([], w1)
                 | Some messages \<Rightarrow> (messages, w1))))"

datatype reply = Approve | Skip | End | Timeout

text \<open>The \<^verbatim>\<open>for msg in messages\<close> loop of \<^verbatim>\<open>wait_for_slack_approval\<close>: the first
  message that is not the bot's, not the request itself, and says y/yes, s/skip or
  e/end after stripping and lower-casing decides.\<close>

fun scan_messages :: "string \<Rightarrow> slack_msg list \<Rightarrow> reply option" where
  "scan_messages message_ts [] = None"
| "scan_messages message_ts (msg # rest) =
     (if m_bot msg \<or> m_ts msg = message_ts then scan_messages message_ts rest
      else (let text = lower (strip (m_text msg))
            in if text \<in> {''y'', ''yes''} then Some Approve
               else if text \<in> {''s'', ''skip''} then Some Skip
               else if text \<in> {''e'', ''end''} then Some End
               else scan_messages message_ts rest))"

text \<open>The polling loop: while less than \<open>timeout_ms\<close> have passed since
  \<open>start_time\<close>, fetch the messages, scan them, sleep five seconds.\<close>

function wait_loop :: "config \<Rightarrow> env \<Rightarrow> string \<Rightarrow> nat \<Rightarrow> nat \<Rightarrow> world \<Rightarrow> reply \<times> world" where
  "wait_loop cfg env message_ts start_time timeout_ms w =
     (if now w - start_time < timeout_ms
      then (case get_slack_messages_since cfg env message_ts w of
              (messages, w1) \<Rightarrow>
                (case scan_messages message_ts messages of
                   Some r \<Rightarrow> (r, w1)
                 | None \<Rightarrow> wait_loop cfg env message_ts start_time timeout_ms (sleep 5000 w1)))
      else (Timeout, w))"
  by pat_completeness auto
termination
  by (relation "measure (\<lambda>(cfg, env, message_ts, start_time, timeout_ms, w).
                  start_time + timeout_ms - now w)")
     (auto simp: get_slack_messages_since_def external_def sleep_def
        split: if_splits option.splits)

declare wait_loop.simps [simp del]

definition wait_for_slack_approval ::
  "config \<Rightarrow> env \<Rightarrow> string \<Rightarrow> nat \<Rightarrow> world \<Rightarrow> reply \<times> world" where
  "wait_for_slack_approval cfg env message_ts timeout_minutes w =
     (if \<not> slack_enabled cfg then (Approve, w)
      else wait_loop cfg env message_ts (now w) (timeout_minutes * 60 * 1000) w)"

datatype action = Approved | Skipped | Ended

definition note_skipped :: "string \<Rightarrow> string \<Rightarrow> nat \<Rightarrow> world \<Rightarrow> world" where
  "note_skipped form_name reason n w =
     w\<lparr>skipped_forms := skipped_forms w @
          [\<lparr>sk_form = form_name, sk_reason = reason, sk_photos = n\<rparr>]\<rparr>"

definition delete_approved :: "env \<Rightarrow> string list \<Rightarrow> string \<Rightarrow> (nat \<times> action) prog" where
  "delete_approved env orphaned_files photos_folder_id w =
     (case delete_photos_from_drive env orphaned_files photos_folder_id w of
        (Inl e, w1) \<Rightarrow> (Inl e, w1)
      | (Inr deleted_count, w1) \<Rightarrow> (Inr (deleted_count, Approved), w1))"

definition cleanup_deleted_photos ::
  "config \<Rightarrow> env \<Rightarrow> string \<Rightarrow> (string \<times> jdict) list \<Rightarrow> string \<Rightarrow> (nat \<times> action) prog" where
  "cleanup_deleted_photos cfg env photos_folder_id photo_metadata_cache form_name w =
     (case identify_orphaned_photos env photos_folder_id photo_metadata_cache w of
        (Inl e, w1) \<Rightarrow> (Inl e, w1)
      | (Inr orphaned_files, w1) \<Rightarrow>
          if orphaned_files = [] then (Inr (0, Approved), w1)
          else if skip_deletions cfg then (Inr (0, Skipped), w1)
          else if auto_delete cfg then
            (case send_slack_message cfg env (''Auto-delete: '' @ form_name) w1 of
               (ts, w2) \<Rightarrow> delete_approved env orphaned_files photos_folder_id w2)
          else if form_name \<in> pre_approved_forms cfg then
            (case send_slack_message cfg env (''Pre-approved: '' @ form_name) w1 of
               (ts, w2) \<Rightarrow> delete_approved env orphaned_files photos_folder_id w2)
          else if slack_enabled cfg then
            (case send_slack_message cfg env (''Photo Deletion Approval Required: '' @ form_name) w1 of
               (None, w2) \<Rightarrow> delete_approved env orphaned_files photos_folder_id w2
             | (Some msg_ts, w2) \<Rightarrow>
                 if msg_ts = [] then delete_approved env orphaned_files photos_folder_id w2
                 else
                   (case wait_for_slack_approval cfg env msg_ts 5 w2 of
                      (Skip, w3) \<Rightarrow>
                        (case send_slack_message cfg env (''Skipped deletion for '' @ form_name)
                                (note_skipped form_name ''user requested'' (length orphaned_files) w3) of
                           (ts, w4) \<Rightarrow> (Inr (0, Skipped), w4))
                    | (End, w3) \<Rightarrow>
                        (case send_slack_message cfg env ''Export process ended by user request'' w3 of
                           (ts, w4) \<Rightarrow> (Inr (0, Ended), w4\<lparr>export_cancelled := True\<rparr>))
                    | (Timeout, w3) \<Rightarrow>
                        (case send_slack_message cfg env (''Timeout - skipped deletion for '' @ form_name)
                                (note_skipped form_name ''no response'' (length orphaned_files) w3) of
                           (ts, w4) \<Rightarrow> (Inr (0, Skipped), w4))
                    | (Approve, w3) \<Rightarrow>
                        (case send_slack_message cfg env (''Deleting photos from '' @ form_name) w3 of
                           (ts, w4) \<Rightarrow> delete_approved env orphaned_files photos_folder_id w4)))
          else delete_approved env orphaned_files photos_folder_id w1)"

section \<open>Clearing folders and replacing files\<close>

text \<open>
  \<^verbatim>\<open>_clear_folder_contents\<close> calls itself for every subfolder. \<open>depth\<close> is the number of
  stack frames left: at zero Python raises RecursionError, which is not an HttpError and
  propagates. An HttpError while clearing or deleting one item is logged and the loop
  goes on; any other exception leaves the function before the cache entry is dropped.
\<close>

fun clear_folder_contents :: "env \<Rightarrow> nat \<Rightarrow> string \<Rightarrow> nat prog"
  and clear_items :: "env \<Rightarrow> nat \<Rightarrow> drive_file list \<Rightarrow> nat \<Rightarrow> nat prog" where
  "clear_folder_contents env 0 folder_id w =
     (Inl (OtherError ''maximum recursion depth exceeded''), w)"
| "clear_folder_contents env (Suc depth) folder_id w =
     (case files_list env (DriveList folder_id) (\<lambda>f. f_parent f = folder_id) w of
        (Inl e, w1) \<Rightarrow> (Inl e, w1)
      | (Inr all_items, w1) \<Rightarrow>
          (case clear_items env depth all_items 0 w1 of
             (Inl e, w2) \<Rightarrow> (Inl e, w2)
           | (Inr deleted, w2) \<Rightarrow>
               (Inr deleted, w2\<lparr>contents_cache := (contents_cache w2)(folder_id := None)\<rparr>)))"
| "clear_items env depth [] deleted w = (Inr deleted, w)"
| "clear_items env depth (f # rest) deleted w =
     (case (if f_mime f = folder_mime then clear_folder_contents env depth (f_id f) w
            else (Inr 0, w)) of
        (Inl (HttpError s m), w1) \<Rightarrow> clear_items env depth rest deleted w1
      | (Inl e, w1) \<Rightarrow> (Inl e, w1)
      | (Inr inner, w1) \<Rightarrow>
          (case files_delete env (f_id f) w1 of
             (Inl (HttpError s m), w2) \<Rightarrow> clear_items env depth rest (deleted + inner) w2
           | (Inl e, w2) \<Rightarrow> (Inl e, w2)
           | (Inr u, w2) \<Rightarrow> clear_items env depth rest (deleted + inner + 1) w2))"

text \<open>The recursion depth Python allows by default.\<close>

definition recursion_limit :: nat where
  "recursion_limit = 1000"

fun delete_each :: "env \<Rightarrow> drive_file list \<Rightarrow> unit prog" where
  "delete_each env [] w = (Inr (), w)"
| "delete_each env (f # rest) w =
     (case files_delete env (f_id f) w of
        (Inl e, w1) \<Rightarrow> (Inl e, w1)
      | (Inr u, w1) \<Rightarrow> delete_each env rest w1)"

definition delete_file_if_exists :: "env \<Rightarrow> string \<Rightarrow> string \<Rightarrow> bool prog" where
  "delete_file_if_exists env name parent_id w =
     (case files_list env (DriveFind name parent_id)
             (\<lambda>f. f_name f = name \<and> f_parent f = parent_id) w of
        (Inl (HttpError s m), w1) \<Rightarrow> (Inr False, w1)
      | (Inl e, w1) \<Rightarrow> (Inl e, w1)
      | (Inr files, w1) \<Rightarrow>
          (case delete_each env files w1 of
             (Inl (HttpError s m), w2) \<Rightarrow> (Inr False, w2)
           | (Inl e, w2) \<Rightarrow> (Inl e, w2)
           | (Inr u, w2) \<Rightarrow> (Inr True, w2)))"

section \<open>Exporting one form\<close>

text \<open>\<^verbatim>\<open>c.isalnum()\<close> for code points below 256, and the folder name of a form.\<close>

definition isalnum :: "char \<Rightarrow> bool" where
  "isalnum c =
     (let n = (of_char c :: nat)
      in (48 \<le> n \<and> n \<le> 57) \<or> (65 \<le> n \<and> n \<le> 90) \<or> (97 \<le> n \<and> n \<le> 122)
         \<or> n \<in> {170, 178, 179, 181, 185, 186, 188, 189, 190}
         \<or> (192 \<le> n \<and> n \<le> 214) \<or> (216 \<le> n \<and> n \<le> 246) \<or> 248 \<le> n)"

definition sanitize :: "string \<Rightarrow> string" where
  "sanitize s = map (\<lambda>c. if isalnum c \<or> c \<in> {CHR '' '', CHR ''-'', CHR ''_''} then c else CHR ''_'') s"

definition safe_name_of :: "form \<Rightarrow> string" where
  "safe_name_of form = sanitize (fm_name form) @ ''_'' @ fm_id form"

text \<open>A step that cannot raise, and a step that only changes the exporter.\<close>

definition lift :: "(world \<Rightarrow> 'a \<times> world) \<Rightarrow> 'a prog" where
  "lift f = (\<lambda>w. case f w of (x, w') \<Rightarrow> (Inr x, w'))"

definition modify :: "(world \<Rightarrow> world) \<Rightarrow> unit prog" where
  "modify f = (\<lambda>w. (Inr (), f w))"

text \<open>
  The requests to Fulcrum. Each paginated loop is one request that returns everything.
  \<^verbatim>\<open>get_records\<close> lets every exception through; \<^verbatim>\<open>get_form_schema\<close> catches
  \<^verbatim>\<open>RequestException\<close> (the schema only shapes the CSV, whose bytes are not modelled);
  \<^verbatim>\<open>get_photos_metadata_batch\<close> catches everything and returns what it has, here
  nothing. The reply of the latter is taken as the dictionary it builds, without the
  entries whose access key is empty.
\<close>

definition get_records :: "env \<Rightarrow> string \<Rightarrow> fulcrum_record list prog" where
  "get_records env fid w =
     (case external env (FulcrumRecords fid) w of
        (Some e, w1) \<Rightarrow> (Inl e, w1)
      | (None, w1) \<Rightarrow> (Inr (records_reply env (length (calls w))), w1))"

definition get_form_schema :: "env \<Rightarrow> string \<Rightarrow> unit prog" where
  "get_form_schema env fid w =
     (case external env (FulcrumSchema fid) w of
        (Some e, w1) \<Rightarrow> if is_oserror e then (Inr (), w1) else (Inl e, w1)
      | (None, w1) \<Rightarrow> (Inr (), w1))"

definition get_photos_metadata_batch ::
  "env \<Rightarrow> string \<Rightarrow> world \<Rightarrow> (string \<times> jdict) list \<times> world" where
  "get_photos_metadata_batch env fid w =
     (case external env (FulcrumPhotosBatch fid) w of
        (Some e, w1) \<Rightarrow> ([], w1)
      | (None, w1) \<Rightarrow> (filter (\<lambda>(k, v). k \<noteq> []) (photos_reply env (length (calls w))), w1))"

text \<open>\<^verbatim>\<open>_upload_geojson_concurrent\<close>, serialised like the photo batch; an exception of an
  upload is logged and the batch goes on.\<close>

fun upload_geojson_loop :: "env \<Rightarrow> fulcrum_record list \<Rightarrow> string \<Rightarrow> nat \<Rightarrow> world \<Rightarrow> nat \<times> world" where
  "upload_geojson_loop env [] folder_id uploaded w = (uploaded, w)"
| "upload_geojson_loop env (r # rest) folder_id uploaded w =
     (case upload_to_drive env (Some ''record json'') (rec_id r @ ''.json'') folder_id
             ''application/json'' w of
        (Inr True, w1) \<Rightarrow> upload_geojson_loop env rest folder_id (uploaded + 1) w1
      | (other, w1) \<Rightarrow> upload_geojson_loop env rest folder_id uploaded w1)"

definition upload_geojson_concurrent ::
  "env \<Rightarrow> fulcrum_record list \<Rightarrow> string \<Rightarrow> string list \<Rightarrow> world \<Rightarrow> nat \<times> world" where
  "upload_geojson_concurrent env records folder_id existing_files w =
     upload_geojson_loop env
       (filter (\<lambda>r. rec_id r @ ''.json'' \<notin> set existing_files) records) folder_id 0 w"

text \<open>Replacing a file: \<^verbatim>\<open>_delete_file_if_exists\<close>, then \<^verbatim>\<open>_upload_to_drive\<close>. The
  bytes written are not modelled.\<close>

definition replace_file :: "env \<Rightarrow> string \<Rightarrow> string \<Rightarrow> string \<Rightarrow> unit prog" where
  "replace_file env name parent_id mime_type =
     bnd (delete_file_if_exists env name parent_id) (\<lambda>d.
     bnd (upload_to_drive env (Some ''content'') name parent_id mime_type) (\<lambda>u. ret ()))"

text \<open>The rows \<^verbatim>\<open>build_photos_csv\<close> keeps, and the three CSVs that exist when they have
  rows.\<close>

definition csv_rows :: "photo list \<Rightarrow> photo list" where
  "csv_rows results =
     filter (\<lambda>r. p_success r = Some True \<and> p_photo_data r \<noteq> None \<and> p_photo_data r \<noteq> Some []) results"

definition before_rows :: "photo list \<Rightarrow> photo list" where
  "before_rows results = filter (\<lambda>r. contains ''before'' (lower (p_field_path r))) (csv_rows results)"

definition completed_rows :: "photo list \<Rightarrow> photo list" where
  "completed_rows results =
     filter (\<lambda>r. \<not> contains ''before'' (lower (p_field_path r))
                 \<and> (contains ''completed'' (lower (p_field_path r))
                      \<or> contains ''after'' (lower (p_field_path r))
                      \<or> contains ''complete'' (lower (p_field_path r)))) (csv_rows results)"

definition upload_photo_csvs :: "env \<Rightarrow> string \<Rightarrow> string \<Rightarrow> photo list \<Rightarrow> unit prog" where
  "upload_photo_csvs env safe_name form_folder_id all_photo_results =
     (if all_photo_results = [] then ret ()
      else
        bnd (if csv_rows all_photo_results \<noteq> []
             then replace_file env (safe_name @ ''_photos.csv'') form_folder_id ''text/csv''
             else ret ()) (\<lambda>a.
        bnd (if before_rows all_photo_results \<noteq> []
             then replace_file env (safe_name @ ''_before_photos.csv'') form_folder_id ''text/csv''
             else ret ()) (\<lambda>b.
        (if completed_rows all_photo_results \<noteq> []
         then replace_file env (safe_name @ ''_completed_photos.csv'') form_folder_id ''text/csv''
         else ret ()))))"

definition update_failed_downloads_summary :: "env \<Rightarrow> unit prog" where
  "update_failed_downloads_summary env w =
     (if failed_forms w = []
      then bnd (delete_file_if_exists env ''FAILED_DOWNLOADS_SUMMARY.txt'' (drive_folder_id w))
             (\<lambda>d. ret ()) w
      else replace_file env ''FAILED_DOWNLOADS_SUMMARY.txt'' (drive_folder_id w) ''text/plain'' w)"

record form_result =
  r_form :: string
  r_records :: nat
  r_photos_uploaded :: nat
  r_photos_skipped :: nat
  r_photos_failed :: nat
  r_photos_deleted :: nat
  r_geojson_uploaded :: nat
  r_export_ended :: bool

text \<open>The statistics and the list of forms with failures, as \<^verbatim>\<open>export_form\<close> updates
  them at its end (lines 1516-1536).\<close>

definition tally_form ::
  "form \<Rightarrow> nat \<Rightarrow> nat \<Rightarrow> nat \<Rightarrow> photo list \<Rightarrow> nat \<Rightarrow> nat \<Rightarrow> world \<Rightarrow> world" where
  "tally_form form n_records uploaded skipped failed_photos deleted_count geojson w =
     w\<lparr>run_stats := (run_stats w)
          \<lparr>forms_processed := forms_processed (run_stats w) + 1,
           photos_uploaded := photos_uploaded (run_stats w) + uploaded,
           photos_skipped := photos_skipped (run_stats w) + skipped,
           photos_failed := photos_failed (run_stats w) + length failed_photos,
           photos_deleted := photos_deleted (run_stats w) + deleted_count,
           geojson_uploaded := geojson_uploaded (run_stats w) + geojson,
           total_records := total_records (run_stats w) + n_records\<rparr>,
       failed_forms := filter (\<lambda>n. n \<noteq> fm_name form) (failed_forms w)
                         @ (if failed_photos \<noteq> [] then [fm_name form] else [])\<rparr>"

text \<open>A form without records: the folder is cleared and a note is left.\<close>

definition export_empty_form :: "env \<Rightarrow> form \<Rightarrow> string \<Rightarrow> form_result prog" where
  "export_empty_form env form form_folder_id =
     bnd (clear_folder_contents env recursion_limit form_folder_id) (\<lambda>cleared.
     bnd (upload_to_drive env (Some ''This form has no records in Fulcrum.'') ''NO_RECORDS.txt''
            form_folder_id ''text/plain'') (\<lambda>u.
     bnd (modify (\<lambda>w. w\<lparr>run_stats := (run_stats w)
                           \<lparr>forms_processed := forms_processed (run_stats w) + 1\<rparr>\<rparr>)) (\<lambda>m.
     ret \<lparr>r_form = fm_name form, r_records = 0, r_photos_uploaded = 0, r_photos_skipped = 0,
          r_photos_failed = 0, r_photos_deleted = 0, r_geojson_uploaded = 0,
          r_export_ended = False\<rparr>)))"

text \<open>After the transfer: the photo CSVs, the count of photos in the folder (a listing
  that bypasses the cache), the summary, the statistics.\<close>

definition finish_form ::
  "env \<Rightarrow> form \<Rightarrow> string \<Rightarrow> string \<Rightarrow> string \<Rightarrow> nat \<Rightarrow> nat \<Rightarrow> nat \<Rightarrow> nat
     \<Rightarrow> (nat \<times> photo list \<times> photo list \<times> nat) \<Rightarrow> form_result prog" where
  "finish_form env form safe_name form_folder_id photos_folder_id n_records geojson skipped
       deleted_count transfer =
     (case transfer of (uploaded, failed_photos, all_photo_results, retry_count) \<Rightarrow>
        bnd (upload_photo_csvs env safe_name form_folder_id all_photo_results) (\<lambda>c.
        bnd (list_drive_folder_contents env photos_folder_id False) (\<lambda>photos_in_drive.
        bnd (replace_file env ''FORM_SUMMARY.txt'' form_folder_id ''text/plain'') (\<lambda>s.
        bnd (modify (tally_form form n_records uploaded skipped failed_photos deleted_count geojson))
          (\<lambda>m.
        bnd (update_failed_downloads_summary env) (\<lambda>f.
        ret \<lparr>r_form = fm_name form, r_records = n_records, r_photos_uploaded = uploaded,
             r_photos_skipped = skipped, r_photos_failed = length failed_photos,
             r_photos_deleted = deleted_count, r_geojson_uploaded = geojson,
             r_export_ended = False\<rparr>))))))"

text \<open>The photos of a form: the skip rule, the metadata, the orphan cleanup with its
  approval gate, and the transfer.\<close>

definition export_photos ::
  "config \<Rightarrow> env \<Rightarrow> form \<Rightarrow> string \<Rightarrow> string \<Rightarrow> fulcrum_record list \<Rightarrow> nat \<Rightarrow> form_result prog" where
  "export_photos cfg env form safe_name form_folder_id records geojson =
     bnd (get_or_create_folder env ''photos'' form_folder_id) (\<lambda>photos_folder_id.
     bnd (list_drive_folder_contents env photos_folder_id True) (\<lambda>existing_photos w.
       (let all_photos = concat (map rec_photos records);
            to_download = photos_to_download all_photos existing_photos w;
            skipped = length all_photos - length to_download
        in bnd (lift (get_photos_metadata_batch env (fm_id form))) (\<lambda>photo_metadata_cache.
           bnd (cleanup_deleted_photos cfg env photos_folder_id photo_metadata_cache (fm_name form))
             (\<lambda>(deleted_count, cleanup_action).
                if cleanup_action = Ended
                then ret \<lparr>r_form = fm_name form, r_records = length records, r_photos_uploaded = 0,
                          r_photos_skipped = skipped, r_photos_failed = 0, r_photos_deleted = 0,
                          r_geojson_uploaded = geojson, r_export_ended = True\<rparr>
                else
                  bnd (lift (download_missing_photos env to_download photos_folder_id
                               photo_metadata_cache))
                    (finish_form env form safe_name form_folder_id photos_folder_id
                       (length records) geojson skipped deleted_count))) w)))"

definition export_form :: "config \<Rightarrow> env \<Rightarrow> form \<Rightarrow> form_result prog" where
  "export_form cfg env form w =
     (let safe_name = safe_name_of form;
          parent_id = (if fm_is_active form then active_forms_id w else inactive_forms_id w)
      in bnd (get_or_create_folder env safe_name parent_id) (\<lambda>form_folder_id.
         bnd (get_records env (fm_id form)) (\<lambda>records.
           if records = [] then export_empty_form env form form_folder_id
           else
             bnd (get_form_schema env (fm_id form)) (\<lambda>schema.
             bnd (replace_file env (safe_name @ ''_data.csv'') form_folder_id ''text/csv'') (\<lambda>c.
             bnd (get_or_create_folder env ''geojson'' form_folder_id) (\<lambda>geojson_folder_id.
             bnd (list_drive_folder_contents env geojson_folder_id True) (\<lambda>existing_geojson.
             bnd (lift (upload_geojson_concurrent env records geojson_folder_id existing_geojson))
               (export_photos cfg env form safe_name form_folder_id records))))))) w)"

section \<open>Fixtures for concrete runs\<close>

text \<open>An environment in which every request succeeds at once, and a fresh exporter.\<close>

definition quiet_env :: env where
  "quiet_env =
     \<lparr>fails = (\<lambda>n. None), latency = (\<lambda>n. 0), new_id = (\<lambda>n. replicate (Suc n) CHR ''i''),
      photo_bytes = (\<lambda>n. ''bytes''), photo_json = (\<lambda>n. []), records_reply = (\<lambda>n. []),
      photos_reply = (\<lambda>n. []), forms_reply = (\<lambda>n. []), layers_reply = (\<lambda>n. []),
      slack_ts = (\<lambda>n. Some ''ts''),
      slack_messages = (\<lambda>n. Some []), init_reply = (\<lambda>n. None)\<rparr>"

definition zero_stats :: stats where
  "zero_stats =
     \<lparr>forms_processed = 0, photos_uploaded = 0, photos_skipped = 0, photos_failed = 0,
      photos_deleted = 0, geojson_uploaded = 0, total_records = 0, layers_uploaded = 0\<rparr>"

definition fresh_world :: world where
  "fresh_world =
     \<lparr>now = 0, calls = [], drive = [], drive_folder_id = ''root'', active_forms_id = ''active'',
      inactive_forms_id = ''inactive'', folder_cache = Map.empty, contents_cache = Map.empty,
      new_folders = {}, uploaded_photos = [], run_stats = zero_stats, failed_forms = [],
      export_cancelled = False,
      skipped_forms = [], current_form_index = 0, export_start_time = None, state_file = None,
      progress_file = None, skipped_forms_file = None, stall_warnings = 0\<rparr>"

definition listed_world :: world where
  "listed_world =
     fresh_world\<lparr>contents_cache := [''F'' \<mapsto> [''A.jpg'', ''B.jpg'', ''C.png'']]\<rparr>"

definition readme_world :: world where
  "readme_world = fresh_world\<lparr>contents_cache := [''F'' \<mapsto> [''README'', ''A.jpg'']]\<rparr>"

definition notes_world :: world where
  "notes_world = fresh_world\<lparr>contents_cache := [''F'' \<mapsto> [''NOTES'', ''B.jpg'']]\<rparr>"

section \<open>Vocabulary of the transfer properties\<close>

text \<open>\<open>extends S w w'\<close>: from \<open>w\<close> to \<open>w'\<close> the request log only grew, by requests in \<open>S\<close>.\<close>

definition extends :: "call set \<Rightarrow> world \<Rightarrow> world \<Rightarrow> bool" where
  "extends S w w' = (\<exists>cs. calls w' = calls w @ cs \<and> set cs \<subseteq> S)"

text \<open>The requests \<^verbatim>\<open>_process_single_photo\<close> can make for one photo id.\<close>

definition photo_calls :: "string \<Rightarrow> string \<Rightarrow> call set" where
  "photo_calls folder pid =
     {FulcrumPhotoMeta pid, FulcrumPhoto pid,
      DriveCreate (pid @ ''.jpg'') ''image/jpeg'' folder,
      DriveCreate (pid @ ''.png'') ''image/png'' folder}"

text \<open>The two shapes of a download's result.\<close>

definition fetched :: "download \<Rightarrow> jdict \<Rightarrow> bool" where
  "fetched d data =
     (\<exists>bytes ext. d = (Some bytes, Some ext, None, Some data) \<and> ext_of data = Inr ext
        \<and> rejection data = None)"

definition refused :: "download \<Rightarrow> bool" where
  "refused d = (\<exists>m. d = (None, None, Some m, None))"

text \<open>A photo was stored: one object was added to the folder, named after the photo id
  and the extension of the metadata used, and the result dictionary says so.\<close>

definition stored_photo :: "photo \<Rightarrow> string \<Rightarrow> (string \<times> jdict) list \<Rightarrow> world \<Rightarrow> photo \<Rightarrow> world \<Rightarrow> bool" where
  "stored_photo photo folder cache w r w' =
     (\<exists>data ext i mime.
        r = photo\<lparr>p_success := Some True, p_photo_data := Some data,
                  p_filename := Some (p_photo_id photo @ ''.'' @ ext)\<rparr>
        \<and> ext_of data = Inr ext \<and> rejection data = None
        \<and> (\<forall>pd. map_of cache (p_photo_id photo) = Some pd \<longrightarrow> pd = data)
        \<and> drive w' = drive w @ [\<lparr>f_id = i, f_name = p_photo_id photo @ ''.'' @ ext,
                                   f_mime = mime, f_parent = folder\<rparr>])"

text \<open>A photo reference, and metadata of a stored, processed PNG.\<close>

definition photo_A :: photo where
  "photo_A = \<lparr>p_photo_id = ''A'', p_record_id = ''R1'', p_field_path = ''photos[0]'',
     p_caption = '''', p_error = None, p_success = None, p_photo_data = None, p_filename = None\<rparr>"

definition png_meta :: jdict where
  "png_meta = [(''stored'', JBool True), (''processed'', JBool True), (''content_type'', JStr ''image/png'')]"

text \<open>A photo whose cached metadata marks it deleted, and what the pipeline returns
  for it.\<close>

definition photo_D :: photo where
  "photo_D = \<lparr>p_photo_id = ''D'', p_record_id = ''R2'', p_field_path = ''photos[1]'',
     p_caption = '''', p_error = None, p_success = None, p_photo_data = None, p_filename = None\<rparr>"

definition deleted_meta :: jdict where
  "deleted_meta = [(''deleted_at'', JStr ''2024-05-01''), (''stored'', JBool True),
     (''processed'', JBool True), (''content_type'', JStr ''image/jpeg'')]"

definition rejected_D :: photo where
  "rejected_D = photo_D\<lparr>p_error := Some ''Photo deleted'', p_success := Some False\<rparr>"















text \<open>A photos folder F holding A.jpg and B.jpg, listed and cached; the same folder
  empty, listed and cached; and the same folder just created by this run.\<close>

definition two_photos_world :: world where
  "two_photos_world =
     fresh_world\<lparr>drive := [\<lparr>f_id = ''1'', f_name = ''A.jpg'', f_mime = ''image/jpeg'', f_parent = ''F''\<rparr>,
                         \<lparr>f_id = ''2'', f_name = ''B.jpg'', f_mime = ''image/jpeg'', f_parent = ''F''\<rparr>],
                 contents_cache := [''F'' \<mapsto> [''A.jpg'', ''B.jpg'']]\<rparr>"

definition empty_listed_world :: world where
  "empty_listed_world = fresh_world\<lparr>contents_cache := [''F'' \<mapsto> []]\<rparr>"

definition new_folder_world :: world where
  "new_folder_world = fresh_world\<lparr>new_folders := {''F''}\<rparr>"

text \<open>The approval gate at work: a photos folder whose cached listing holds the orphan
  B.jpg, Slack configured with no deletion policy, and an approver who answers.\<close>

definition gate_cfg :: config where
  "gate_cfg = \<lparr>skip_deletions = False, auto_delete = False, quick_check = False,
     slack_enabled = True, pre_approved_forms = {}, timeout_seconds = 20700\<rparr>"

definition gate_world :: world where
  "gate_world =
     fresh_world\<lparr>drive := [\<lparr>f_id = ''2'', f_name = ''B.jpg'', f_mime = ''image/jpeg'', f_parent = ''F''\<rparr>],
                 contents_cache := [''F'' \<mapsto> [''B.jpg'']]\<rparr>"

definition yes_msg :: slack_msg where
  "yes_msg = \<lparr>m_bot = False, m_ts = ''r1'', m_text = '' YES ''\<rparr>"

definition skip_msg :: slack_msg where
  "skip_msg = \<lparr>m_bot = False, m_ts = ''r1'', m_text = ''Skip''\<rparr>"

definition yes_env :: env where
  "yes_env = quiet_env\<lparr>slack_messages := (\<lambda>n. Some [yes_msg])\<rparr>"

definition skip_env :: env where
  "skip_env = quiet_env\<lparr>slack_messages := (\<lambda>n. Some [skip_msg])\<rparr>"

definition asked_world :: world where
  "asked_world = gate_world\<lparr>calls := [SlackPost ''Photo Deletion Approval Required: Wells'']\<rparr>"

definition polled_world :: world where
  "polled_world = gate_world\<lparr>calls := [SlackPost ''Photo Deletion Approval Required: Wells'',
                                        SlackHistory ''ts'']\<rparr>"

text \<open>A message the polling loop passes over, the first message it does not pass over,
  and an approval channel on which nothing but such messages ever arrives.\<close>

definition ignored :: "string \<Rightarrow> slack_msg \<Rightarrow> bool" where
  "ignored message_ts m =
     (m_bot m \<or> m_ts m = message_ts
      \<or> lower (strip (m_text m)) \<notin> {''y'', ''yes'', ''s'', ''skip'', ''e'', ''end''})"

definition first_reply :: "string \<Rightarrow> slack_msg list \<Rightarrow> string \<Rightarrow> bool" where
  "first_reply message_ts messages text =
     (\<exists>before reply rest. messages = before @ reply # rest
        \<and> (\<forall>m \<in> set before. ignored message_ts m)
        \<and> \<not> m_bot reply \<and> m_ts reply \<noteq> message_ts \<and> lower (strip (m_text reply)) = text)"

definition silent :: "env \<Rightarrow> string \<Rightarrow> bool" where
  "silent env message_ts =
     (\<forall>n messages. slack_messages env n = Some messages \<longrightarrow>
        (\<forall>m \<in> set messages. ignored message_ts m))"

text \<open>Only the clock and the request log differ between two worlds.\<close>

definition ticks :: "world \<Rightarrow> world \<Rightarrow> bool" where
  "ticks w w' =
     (drive w' = drive w \<and> drive_folder_id w' = drive_folder_id w
      \<and> active_forms_id w' = active_forms_id w \<and> inactive_forms_id w' = inactive_forms_id w
      \<and> folder_cache w' = folder_cache w \<and> contents_cache w' = contents_cache w
      \<and> new_folders w' = new_folders w \<and> uploaded_photos w' = uploaded_photos w
      \<and> run_stats w' = run_stats w \<and> failed_forms w' = failed_forms w
      \<and> export_cancelled w' = export_cancelled w \<and> skipped_forms w' = skipped_forms w
      \<and> current_form_index w' = current_form_index w
      \<and> export_start_time w' = export_start_time w \<and> state_file w' = state_file w
      \<and> progress_file w' = progress_file w \<and> skipped_forms_file w' = skipped_forms_file w
      \<and> stall_warnings w' = stall_warnings w)"

text \<open>The world at the head of a round of the polling loop, after \<open>k\<close> rounds that each
  began within the window and saw no reply the loop recognises; \<open>None\<close> when the loop
  does not get that far.\<close>

fun silent_polls :: "config \<Rightarrow> env \<Rightarrow> string \<Rightarrow> nat \<Rightarrow> nat \<Rightarrow> nat \<Rightarrow> world \<Rightarrow> world option" where
  "silent_polls cfg env message_ts start_time timeout_ms 0 w = Some w"
| "silent_polls cfg env message_ts start_time timeout_ms (Suc k) w =
     (if now w - start_time < timeout_ms
      then (case get_slack_messages_since cfg env message_ts w of
              (messages, w1) \<Rightarrow>
                (case scan_messages message_ts messages of
                   None \<Rightarrow> silent_polls cfg env message_ts start_time timeout_ms k (sleep 5000 w1)
                 | Some r \<Rightarrow> None))
      else None)"

text \<open>The files of a folder that bear one of the given names.\<close>

definition orphan_files :: "string \<Rightarrow> string list \<Rightarrow> world \<Rightarrow> drive_file list" where
  "orphan_files folder filenames w =
     filter (\<lambda>f. f_parent f = folder \<and> f_name f \<in> set filenames) (drive w)"

text \<open>Approvers who answer at the second poll; a Slack whose history request takes the
  whole window; the worlds the gate passes through on the way; a store that refuses the
  delete request, the fifth request of the run; and a photos folder that holds the orphan
  B.jpg twice.\<close>

definition later_yes_env :: env where
  "later_yes_env = quiet_env\<lparr>slack_messages := (\<lambda>n. if n = 2 then Some [yes_msg] else Some [])\<rparr>"

definition later_skip_env :: env where
  "later_skip_env = quiet_env\<lparr>slack_messages := (\<lambda>n. if n = 2 then Some [skip_msg] else Some [])\<rparr>"

definition slow_slack_env :: env where
  "slow_slack_env = quiet_env\<lparr>latency := (\<lambda>n. if n = 1 then 300000 else 0)\<rparr>"

definition waited_world :: world where
  "waited_world = polled_world\<lparr>now := 5000\<rparr>"

definition answered_world :: world where
  "answered_world =
     gate_world\<lparr>now := 5000,
       calls := [SlackPost ''Photo Deletion Approval Required: Wells'',
                 SlackHistory ''ts'', SlackHistory ''ts'']\<rparr>"

definition expired_world :: world where
  "expired_world = polled_world\<lparr>now := 305000\<rparr>"

definition refusing_env :: env where
  "refusing_env =
     yes_env\<lparr>fails := (\<lambda>n. if n = 4 then Some (HttpError 500 ''backend error'') else None)\<rparr>"

definition twins_world :: world where
  "twins_world =
     fresh_world\<lparr>drive := [\<lparr>f_id = ''2'', f_name = ''B.jpg'', f_mime = ''image/jpeg'', f_parent = ''F''\<rparr>,
                         \<lparr>f_id = ''3'', f_name = ''B.jpg'', f_mime = ''image/jpeg'', f_parent = ''F''\<rparr>],
                 contents_cache := [''F'' \<mapsto> [''B.jpg'']]\<rparr>"

section \<open>Orphan computation\<close>

lemma orphaned_loop_filter:
  "orphaned_loop V xs = filter (\<lambda>f. CHR ''.'' \<in> set f \<and> rsplit_dot_head f \<notin> V) xs"
  by (induction xs) simp_all

lemma identify_orphaned_photos_result:
  assumes "list_drive_folder_contents env fid True w = (Inr listing, w1)"
  shows "identify_orphaned_photos env fid cache w =
           (Inr (filter (\<lambda>f. CHR ''.'' \<in> set f \<and> rsplit_dot_head f \<notin> fst ` set cache) listing), w1)"
  using assms by (simp add: identify_orphaned_photos_def orphaned_loop_filter)

text \<open>
  C5 (as amended). Whatever listing the target folder yields, \<open>identify_orphaned_photos\<close>
  returns exactly the listed filenames that contain a dot and whose asset id (the name
  before its last dot) is not a key of the metadata cache.
\<close>

theorem identify_orphaned_photos_exact:
  assumes "list_drive_folder_contents env fid True w = (Inr listing, w1)"
  shows "\<exists>orphaned. identify_orphaned_photos env fid cache w = (Inr orphaned, w1) \<and>
           set orphaned =
             {f \<in> set listing. CHR ''.'' \<in> set f \<and> rsplit_dot_head f \<notin> fst ` set cache}"
  using identify_orphaned_photos_result [OF assms, of cache] by auto

lemma listed_world_listing:
  "list_drive_folder_contents quiet_env ''F'' True listed_world =
     (Inr [''A.jpg'', ''B.jpg'', ''C.png''], listed_world)"
  by (simp add: list_drive_folder_contents_def listed_world_def)

lemma rsplit_dot_head_examples:
  "rsplit_dot_head ''A.jpg'' = ''A''" "rsplit_dot_head ''B.jpg'' = ''B''"
  "rsplit_dot_head ''C.png'' = ''C''" "rsplit_dot_head ''README'' = ''README''"
  by (simp_all add: rsplit_dot_head_def)

text \<open>The spec's example: listing A.jpg, B.jpg, C.png against the valid ids A and C.\<close>

theorem identify_orphaned_photos_exact_witness:
  "\<exists>orphaned. identify_orphaned_photos quiet_env ''F'' [(''A'', []), (''C'', [])] listed_world =
       (Inr orphaned, listed_world) \<and> set orphaned = {''B.jpg''}"
proof -
  have "{f \<in> set [''A.jpg'', ''B.jpg'', ''C.png''].
          CHR ''.'' \<in> set f \<and> rsplit_dot_head f \<notin> fst ` set [(''A'', [] :: jdict), (''C'', [])]}
        = {''B.jpg''}"
    by (simp add: rsplit_dot_head_examples Collect_conv_if conj_disj_distribR Collect_disj_eq)
  with identify_orphaned_photos_exact
         [OF listed_world_listing, of "[(''A'', [] :: jdict), (''C'', [])]"]
  show ?thesis by simp
qed

text \<open>
  The claim as written fails on a name without a dot: README is listed, stripping a final
  extension leaves README, README is not a valid id, and yet nothing is returned.
\<close>

theorem identify_orphaned_photos_dotless_counterexample:
  "identify_orphaned_photos quiet_env ''F'' [(''A'', [])] readme_world = (Inr [], readme_world)
   \<and> ''README'' \<in> set (the (contents_cache readme_world ''F''))
   \<and> rsplit_dot_head ''README'' = ''README''
   \<and> ''README'' \<notin> fst ` set [(''A'', [] :: jdict)]"
  by (simp add: identify_orphaned_photos_def list_drive_folder_contents_def readme_world_def
      rsplit_dot_head_examples)

text \<open>
  C10. A filename without a dot is never among the names \<open>identify_orphaned_photos\<close>
  returns, whatever the listing and the valid ids are.
\<close>

theorem dotless_filename_never_orphaned:
  assumes "identify_orphaned_photos env fid cache w = (Inr orphaned, w1)"
    and "CHR ''.'' \<notin> set f"
  shows "f \<notin> set orphaned"
  using assms
  by (auto simp: identify_orphaned_photos_def orphaned_loop_filter
      split: prod.splits sum.splits if_splits)

theorem dotless_filename_never_orphaned_witness:
  "identify_orphaned_photos quiet_env ''F'' [] notes_world = (Inr [''B.jpg''], notes_world)
   \<and> CHR ''.'' \<notin> set ''NOTES'' \<and> ''NOTES'' \<notin> set [''B.jpg'']"
proof -
  have run: "identify_orphaned_photos quiet_env ''F'' [] notes_world = (Inr [''B.jpg''], notes_world)"
    by (simp add: identify_orphaned_photos_def list_drive_folder_contents_def notes_world_def
        rsplit_dot_head_examples)
  have dotless: "CHR ''.'' \<notin> set ''NOTES''" by simp
  from dotless_filename_never_orphaned [OF run dotless] run dotless show ?thesis by simp
qed

section \<open>Effects of the transfer pipeline\<close>

lemma extends_refl [simp]: "extends S w w"
  by (simp add: extends_def)

lemma extends_trans: "extends S w w1 \<Longrightarrow> extends S w1 w2 \<Longrightarrow> extends S w w2"
  by (auto simp: extends_def)

lemma extends_mono: "extends S w w' \<Longrightarrow> S \<subseteq> T \<Longrightarrow> extends T w w'"
  by (auto simp: extends_def)

lemma extends_sleep [simp]: "extends S w (sleep n w') = extends S w w'"
  by (simp add: extends_def sleep_def)

lemma drive_sleep [simp]: "drive (sleep n w) = drive w"
  by (simp add: sleep_def)

lemma extends_sleep_left [simp]: "extends S (sleep n w) w' = extends S w w'"
  by (simp add: extends_def sleep_def)

lemma external_effect:
  assumes "external env c w = (r, w')"
  shows "calls w' = calls w @ [c]" and "drive w' = drive w"
  using assms by (auto simp: external_def)

lemma external_extends: "external env c w = (r, w') \<Longrightarrow> c \<in> S \<Longrightarrow> extends S w w'"
  by (auto simp: external_def extends_def)

lemma download_attempts_effect:
  assumes "download_attempts env pid ext pd mr atts le w = (d, w')"
  shows "extends {FulcrumPhoto pid} w w' \<and> drive w' = drive w"
  using assms
proof (induction atts arbitrary: le w)
  case Nil
  then show ?case by simp
next
  case (Cons a atts)
  obtain r w1 where ex: "external env (FulcrumPhoto pid) w = (r, w1)" by (cases "external env (FulcrumPhoto pid) w")
  have e1: "extends {FulcrumPhoto pid} w w1" "drive w1 = drive w"
    using external_extends [OF ex] external_effect(2) [OF ex] by simp_all
  show ?case
  proof (cases r)
    case None
    then show ?thesis using Cons.prems ex e1 by simp
  next
    case (Some e)
    show ?thesis
    proof (cases e)
      case (ConnError m)
      with Some Cons.prems ex
      have "download_attempts env pid ext pd mr atts (Some m)
              (if a < mr - 1 then sleep (1000 * (a + 1)) w1 else w1) = (d, w')" by simp
      from Cons.IH [OF this] e1 show ?thesis
        by (auto intro: extends_trans split: if_splits)
    qed (use Some Cons.prems ex e1 in auto)
  qed
qed

lemma memory_attempts_effect:
  assumes "memory_attempts env pid mr atts le w = (d, w')"
  shows "extends {FulcrumPhotoMeta pid, FulcrumPhoto pid} w w' \<and> drive w' = drive w"
  using assms
proof (induction atts arbitrary: le w)
  case Nil
  then show ?case by simp
next
  case (Cons a atts)
  let ?S = "{FulcrumPhotoMeta pid, FulcrumPhoto pid}"
  obtain r w1 where ex: "external env (FulcrumPhotoMeta pid) w = (r, w1)"
    by (cases "external env (FulcrumPhotoMeta pid) w")
  obtain r2 w2 where ex2: "external env (FulcrumPhoto pid) w1 = (r2, w2)"
    by (cases "external env (FulcrumPhoto pid) w1")
  have e1: "extends ?S w w1" "drive w1 = drive w"
    using external_extends [OF ex] external_effect(2) [OF ex] by simp_all
  have e2: "extends ?S w w2" "drive w2 = drive w"
    using external_extends [OF ex2, of ?S] external_effect(2) [OF ex2] e1
    by (auto intro: extends_trans)
  have rec: "extends ?S w w' \<and> drive w' = drive w"
    if "memory_attempts env pid mr atts le' (if a < mr - 1 then sleep n wx else wx) = (d, w')"
      and "extends ?S w wx" "drive wx = drive w" for le' n wx
    using Cons.IH [OF that(1)] that(2,3)
    by (auto intro: extends_trans split: if_splits)
  show ?case
    using Cons.prems ex ex2 e1 e2
    by (auto simp: Let_def split: option.splits exn.splits sum.splits if_splits
        dest!: rec [rotated 2])
qed

lemma files_create_effect:
  assumes "files_create env name mime parent w = (r, w')"
  shows "extends {DriveCreate name mime parent} w w'"
    and "r = Inr i \<Longrightarrow>
           drive w' = drive w @ [\<lparr>f_id = i, f_name = name, f_mime = mime, f_parent = parent\<rparr>]"
    and "r = Inl e \<Longrightarrow> drive w' = drive w"
  using assms
  by (auto simp: files_create_def external_def extends_def Let_def split: option.splits)

lemma upload_attempts_effect:
  assumes "upload_attempts env name parent mime mr atts w = (r, w')"
  shows "extends {DriveCreate name mime parent} w w' \<and>
         (if r = Inr True
          then \<exists>i. drive w' = drive w @ [\<lparr>f_id = i, f_name = name, f_mime = mime, f_parent = parent\<rparr>]
          else drive w' = drive w)"
  using assms
proof (induction atts arbitrary: w)
  case Nil
  then show ?case by auto
next
  case (Cons a atts)
  let ?S = "{DriveCreate name mime parent}"
  obtain r1 w1 where fc: "files_create env name mime parent w = (r1, w1)"
    by (cases "files_create env name mime parent w")
  note eff = files_create_effect [OF fc]
  have rec: "extends ?S w w' \<and>
         (if r = Inr True
          then \<exists>i. drive w' = drive w @ [\<lparr>f_id = i, f_name = name, f_mime = mime, f_parent = parent\<rparr>]
          else drive w' = drive w)"
    if "upload_attempts env name parent mime mr atts (sleep n w1) = (r, w')"
      and "drive w1 = drive w" for n
    using Cons.IH [OF that(1)] that(2) eff(1)
    by (auto intro: extends_trans)
  show ?case
  proof (cases r1)
    case (Inr i)
    then show ?thesis using Cons.prems fc eff by auto
  next
    case (Inl e)
    then show ?thesis
      using Cons.prems fc eff(1) eff(3) [OF Inl]
      by (cases e) (auto split: if_splits dest!: rec)
  qed
qed

lemma download_attempts_shape:
  assumes "download_attempts env pid ext pd mr atts le w = (d, w')"
    and "ext_of pd = Inr ext" and "rejection pd = None"
  shows "fetched d pd \<or> refused d"
  using assms
  by (induction atts arbitrary: le w)
     (auto simp: fetched_def refused_def split: prod.splits option.splits exn.splits)

lemma memory_attempts_shape:
  assumes "memory_attempts env pid mr atts le w = (d, w')"
  shows "(\<exists>data. fetched d data) \<or> refused d"
  using assms
  by (induction atts arbitrary: le w)
     (auto simp: fetched_def refused_def Let_def
       split: prod.splits option.splits exn.splits sum.splits)

lemma ext_of_cases: "ext_of data = Inr ext \<Longrightarrow> ext = ''jpg'' \<or> ext = ''png''"
  by (auto simp: ext_of_def split: option.splits json.splits if_splits)

lemma drive_record_photo_uploaded [simp]: "drive (record_photo_uploaded pid w) = drive w"
  by (simp add: record_photo_uploaded_def save_photo_progress_def Let_def)

lemma calls_record_photo_uploaded [simp]: "calls (record_photo_uploaded pid w) = calls w"
  by (simp add: record_photo_uploaded_def save_photo_progress_def Let_def)

lemma extends_record_photo_uploaded [simp]:
  "extends S w (record_photo_uploaded pid w') = extends S w w'"
  by (simp add: extends_def)

text \<open>What fetching a photo does: it talks to Fulcrum about this photo only, leaves the
  target store alone, and either fetched the bytes or refused with a message.\<close>

lemma download_step:
  assumes "(case map_of cache pid of
              Some photo_data \<Rightarrow> download_photo_with_metadata env pid photo_data w
            | None \<Rightarrow> download_photo_to_memory env pid w) = (r, w1)"
  shows "extends {FulcrumPhotoMeta pid, FulcrumPhoto pid} w w1 \<and> drive w1 = drive w \<and>
         (case r of
            Inl e \<Rightarrow> True
          | Inr d \<Rightarrow> (\<exists>data. fetched d data \<and> (\<forall>pd. map_of cache pid = Some pd \<longrightarrow> pd = data))
                     \<or> refused d)"
proof (cases "map_of cache pid")
  case None
  then obtain d where m: "memory_attempts env pid 3 [0..<3] None w = (d, w1)" and r: "r = Inr d"
    using assms by (auto simp: download_photo_to_memory_def split: prod.splits)
  from memory_attempts_effect [OF m] memory_attempts_shape [OF m] None r
  show ?thesis by auto
next
  case (Some pd)
  show ?thesis
  proof (cases "rejection pd")
    case (Some reason)
    with \<open>map_of cache pid = Some pd\<close> assms show ?thesis
      by (auto simp: download_photo_with_metadata_def refused_def)
  next
    case None
    show ?thesis
    proof (cases "ext_of pd")
      case (Inl e)
      with None \<open>map_of cache pid = Some pd\<close> assms show ?thesis
        by (auto simp: download_photo_with_metadata_def)
    next
      case (Inr ext)
      with None \<open>map_of cache pid = Some pd\<close> assms
      obtain d where m: "download_attempts env pid ext pd 3 [0..<3] None w = (d, w1)"
        and r: "r = Inr d"
        by (auto simp: download_photo_with_metadata_def split: prod.splits)
      from download_attempts_effect [OF m] download_attempts_shape [OF m Inr None] r
        \<open>map_of cache pid = Some pd\<close>
      show ?thesis by (auto intro: extends_mono)
    qed
  qed
qed

lemma upload_to_drive_effect:
  assumes "upload_to_drive env content name parent mime w = (r, w')"
  shows "extends {DriveCreate name mime parent} w w' \<and>
         (if r = Inr True
          then \<exists>i. drive w' = drive w @ [\<lparr>f_id = i, f_name = name, f_mime = mime, f_parent = parent\<rparr>]
          else drive w' = drive w)"
proof (cases content)
  case None
  with assms show ?thesis by (auto simp: upload_to_drive_def)
next
  case (Some bytes)
  with assms have "upload_attempts env name parent mime 3 [0..<3] w = (r, w')"
    by (simp add: upload_to_drive_def)
  from upload_attempts_effect [OF this] show ?thesis .
qed

lemma process_single_photo_effect:
  assumes "process_single_photo env photo folder cache w = (r, w')"
  shows "extends (photo_calls folder (p_photo_id photo)) w w'"
    and "(\<exists>r'. r = Inr r' \<and> stored_photo photo folder cache w r' w')
         \<or> ((\<forall>r'. r = Inr r' \<longrightarrow> p_success r' = Some False \<and> p_photo_id r' = p_photo_id photo)
             \<and> drive w' = drive w)"
proof -
  let ?pid = "p_photo_id photo"
  obtain r1 w1 where dl:
    "(case map_of cache ?pid of
        Some photo_data \<Rightarrow> download_photo_with_metadata env ?pid photo_data w
      | None \<Rightarrow> download_photo_to_memory env ?pid w) = (r1, w1)"
    by (cases "case map_of cache ?pid of
        Some photo_data \<Rightarrow> download_photo_with_metadata env ?pid photo_data w
      | None \<Rightarrow> download_photo_to_memory env ?pid w")
  note ds = download_step [OF dl]
  have sub: "{FulcrumPhotoMeta ?pid, FulcrumPhoto ?pid} \<subseteq> photo_calls folder ?pid"
    by (auto simp: photo_calls_def)
  have ext1: "extends (photo_calls folder ?pid) w w1"
    using ds sub by (auto intro: extends_mono)
  have both: "extends (photo_calls folder ?pid) w w' \<and>
        ((\<exists>r'. r = Inr r' \<and> stored_photo photo folder cache w r' w')
         \<or> ((\<forall>r'. r = Inr r' \<longrightarrow> p_success r' = Some False \<and> p_photo_id r' = ?pid)
             \<and> drive w' = drive w))"
  proof (cases r1)
    case (Inl e)
    with assms dl ds ext1 show ?thesis
      by (auto simp: process_single_photo_def Let_def)
  next
    case (Inr d)
    from ds Inr consider (ok) data where "fetched d data"
        "\<forall>pd. map_of cache ?pid = Some pd \<longrightarrow> pd = data"
      | (no) "refused d" by auto
    then show ?thesis
    proof cases
      case no
      then obtain m where d: "d = (None, None, Some m, None)" by (auto simp: refused_def)
      show ?thesis
      proof (cases "m = []")
        case False
        with d Inr assms dl ds ext1 show ?thesis
          by (auto simp: process_single_photo_def Let_def)
      next
        case True
        with d Inr assms dl ds ext1 show ?thesis
          by (auto simp: process_single_photo_def Let_def upload_to_drive_def)
      qed
    next
      case ok
      then obtain bytes ext where d: "d = (Some bytes, Some ext, None, Some data)"
        and e: "ext_of data = Inr ext" and rj: "rejection data = None"
        by (auto simp: fetched_def)
      let ?name = "?pid @ ''.'' @ ext"
      let ?mime = "if Some ext = Some ''png'' then ''image/png'' else ''image/jpeg''"
      obtain r2 w2 where up: "upload_to_drive env (Some bytes) ?name folder ?mime w1 = (r2, w2)"
        by (cases "upload_to_drive env (Some bytes) ?name folder ?mime w1")
      note ue = upload_to_drive_effect [OF up]
      have "DriveCreate ?name ?mime folder \<in> photo_calls folder ?pid"
        using ext_of_cases [OF e] by (auto simp: photo_calls_def)
      with ue have ext2: "extends (photo_calls folder ?pid) w1 w2"
        by (auto intro: extends_mono)
      with ext1 have ext12: "extends (photo_calls folder ?pid) w w2"
        by (rule extends_trans)
      show ?thesis
      proof (cases "r2 = Inr True")
        case True
        with ue obtain i where dr: "drive w2 = drive w1 @
            [\<lparr>f_id = i, f_name = ?name, f_mime = ?mime, f_parent = folder\<rparr>]"
          by auto
        have res: "r = Inr (photo\<lparr>p_success := Some True, p_photo_data := Some data,
                      p_filename := Some ?name\<rparr>)"
          and fin: "w' = record_photo_uploaded ?pid w2"
          using assms dl Inr d up True by (auto simp: process_single_photo_def Let_def)
        have "stored_photo photo folder cache w
                (photo\<lparr>p_success := Some True, p_photo_data := Some data,
                      p_filename := Some ?name\<rparr>) w'"
          unfolding stored_photo_def
          using e rj ok(2) dr ds fin
          by (intro exI [of _ data] exI [of _ ext] exI [of _ i] exI [of _ ?mime]) simp
        with res ext12 fin show ?thesis by simp
      next
        case False
        with d Inr assms dl up ue ds ext12 show ?thesis
          by (cases r2) (auto simp: process_single_photo_def Let_def)
      qed
    qed
  qed
  from both show "extends (photo_calls folder (p_photo_id photo)) w w'" by blast
  from both show "(\<exists>r'. r = Inr r' \<and> stored_photo photo folder cache w r' w')
         \<or> ((\<forall>r'. r = Inr r' \<longrightarrow> p_success r' = Some False \<and> p_photo_id r' = p_photo_id photo)
             \<and> drive w' = drive w)" by blast
qed

lemma ext_of_png: "ext_of data = Inr ext \<Longrightarrow>
  ext = (if (\<exists>s. map_of data ''content_type'' = Some (JStr s) \<and> contains ''png'' s) then ''png'' else ''jpg'')"
  by (auto simp: ext_of_def split: option.splits json.splits if_splits)

text \<open>
  C9. Whatever \<open>process_single_photo\<close> adds to the target store is one object in the
  photos folder, named after the photo id with \<open>.png\<close> when the content type of the
  metadata used contains \<open>png\<close> and \<open>.jpg\<close> otherwise; the skip rule excludes the
  photo from the backlog whenever that name is in the folder's listing.
\<close>

theorem stored_photo_key:
  assumes "process_single_photo env photo folder cache w = (r, w')"
  shows "drive w' = drive w \<or>
         (\<exists>f data r'. r = Inr r' \<and> p_photo_data r' = Some data \<and> p_filename r' = Some (f_name f)
            \<and> drive w' = drive w @ [f] \<and> f_parent f = folder
            \<and> f_name f = p_photo_id photo @
                 (if (\<exists>s. map_of data ''content_type'' = Some (JStr s) \<and> contains ''png'' s)
                  then ''.png'' else ''.jpg'')
            \<and> (\<forall>all_photos existing w0. f_name f \<in> set existing \<longrightarrow>
                   photo \<notin> set (photos_to_download all_photos existing w0)))"
proof -
  from process_single_photo_effect(2) [OF assms]
  consider (stored) r' where "r = Inr r'" "stored_photo photo folder cache w r' w'"
    | (same) "drive w' = drive w" by blast
  then show ?thesis
  proof cases
    case same
    then show ?thesis by simp
  next
    case stored
    then obtain data ext i mime where
      r': "r' = photo\<lparr>p_success := Some True, p_photo_data := Some data,
                  p_filename := Some (p_photo_id photo @ ''.'' @ ext)\<rparr>"
      and e: "ext_of data = Inr ext"
      and d: "drive w' = drive w @ [\<lparr>f_id = i, f_name = p_photo_id photo @ ''.'' @ ext,
                                   f_mime = mime, f_parent = folder\<rparr>]"
      by (auto simp: stored_photo_def)
    let ?f = "\<lparr>f_id = i, f_name = p_photo_id photo @ ''.'' @ ext, f_mime = mime, f_parent = folder\<rparr>"
    have "\<forall>all_photos existing w0. f_name ?f \<in> set existing \<longrightarrow>
            photo \<notin> set (photos_to_download all_photos existing w0)"
      using ext_of_cases [OF e] by (auto simp: photos_to_download_def)
    with stored(1) r' d ext_of_png [OF e] show ?thesis
      by (intro disjI2 exI [of _ ?f] exI [of _ data] exI [of _ r']) auto
  qed
qed

lemma run_A: "process_single_photo quiet_env photo_A ''F'' [(''A'', png_meta)] fresh_world =
   (Inr (photo_A\<lparr>p_success := Some True, p_photo_data := Some png_meta, p_filename := Some ''A.png''\<rparr>),
    fresh_world\<lparr>calls := [FulcrumPhoto ''A'', DriveCreate ''A.png'' ''image/png'' ''F''],
       drive := [\<lparr>f_id = ''ii'', f_name = ''A.png'', f_mime = ''image/png'', f_parent = ''F''\<rparr>],
       uploaded_photos := [''A'']\<rparr>)"
  by (simp add: process_single_photo_def photo_A_def png_meta_def download_photo_with_metadata_def
      rejection_def ext_of_def external_def quiet_env_def fresh_world_def upload_to_drive_def
      files_create_def record_photo_uploaded_def upt_rec Let_def)

theorem stored_photo_key_witness:
  "process_single_photo quiet_env photo_A ''F'' [(''A'', png_meta)] fresh_world =
     (Inr (photo_A\<lparr>p_success := Some True, p_photo_data := Some png_meta,
                    p_filename := Some ''A.png''\<rparr>),
      fresh_world\<lparr>calls := [FulcrumPhoto ''A'', DriveCreate ''A.png'' ''image/png'' ''F''],
         drive := [\<lparr>f_id = ''ii'', f_name = ''A.png'', f_mime = ''image/png'', f_parent = ''F''\<rparr>],
         uploaded_photos := [''A'']\<rparr>)
   \<and> map_of png_meta ''content_type'' = Some (JStr ''image/png'')
   \<and> contains ''png'' ''image/png''
   \<and> photo_A \<notin> set (photos_to_download [photo_A] [''A.png''] fresh_world)"
  using stored_photo_key [OF run_A] run_A
  by (simp add: png_meta_def photos_to_download_def photo_A_def)

section \<open>Batch retry termination\<close>

text \<open>
  C4. The failed batch is resubmitted in retry rounds. When the second retry round ends
  with no fewer failures than the first, the loop stops there: it returns with
  \<open>retry_count = 2\<close> in the world that the second round left, so no third round is
  submitted.
\<close>

theorem no_third_retry_round:
  assumes r1: "download_and_upload_photos env failed folder cache w = ((res1, failed1), w1)"
    and r2: "download_and_upload_photos env failed1 folder cache w1 = ((res2, failed2), w2)"
    and ne: "failed \<noteq> []" and ne1: "failed1 \<noteq> []"
    and same: "length failed1 \<le> length failed2"
  shows "\<exists>u f r. retry_failed env folder cache 0 (length failed) failed uploaded results w
           = ((u, f, r, 2), w2)"
proof -
  have second: "\<exists>u f r. retry_failed env folder cache (Suc 0) prev failed1 u1 rs1 w1 = ((u, f, r, 2), w2)"
    if "prev \<le> length failed1" for prev u1 rs1
    using that same ne1 r2 by (subst retry_failed.simps) simp
  show ?thesis
  proof (cases "length failed \<le> length failed1")
    case True
    then show ?thesis
      using ne r1 second [of "length failed"]
      by (subst retry_failed.simps) (simp add: Let_def)
  next
    case False
    then show ?thesis
      using ne r1 second [of "length failed1"]
      by (subst retry_failed.simps) (simp add: Let_def)
  qed
qed

lemma reject_D:
  "process_single_photo env photo_D ''F'' [(''D'', deleted_meta)] w = (Inr rejected_D, w)"
  "process_single_photo env rejected_D ''F'' [(''D'', deleted_meta)] w = (Inr rejected_D, w)"
  by (simp_all add: process_single_photo_def photo_D_def rejected_D_def deleted_meta_def
      download_photo_with_metadata_def rejection_def)

lemma rejected_D_success: "p_success rejected_D = Some False"
  by (simp add: rejected_D_def)

lemma round_D:
  "download_and_upload_photos env [photo_D] ''F'' [(''D'', deleted_meta)] w
     = (([rejected_D], [rejected_D]), w)"
  "download_and_upload_photos env [rejected_D] ''F'' [(''D'', deleted_meta)] w
     = (([rejected_D], [rejected_D]), w)"
  by (simp_all add: download_and_upload_photos_def reject_D rejected_D_success)

theorem no_third_retry_round_witness:
  "download_and_upload_photos quiet_env [rejected_D] ''F'' [(''D'', deleted_meta)] fresh_world
     = (([rejected_D], [rejected_D]), fresh_world)
   \<and> [rejected_D] \<noteq> [] \<and> length [rejected_D] \<le> length [rejected_D]
   \<and> (\<exists>u f r. retry_failed quiet_env ''F'' [(''D'', deleted_meta)] 0 (length [rejected_D])
                 [rejected_D] 0 [] fresh_world = ((u, f, r, 2), fresh_world))"
  using no_third_retry_round [OF round_D(2) round_D(2), where uploaded = 0 and results = "[]"] round_D(2)
  by simp

section \<open>One round over a batch\<close>



lemma key_eq [simp]:
  "(p @ ''.jpg'' = q @ ''.jpg'') = (p = q)" "(p @ ''.png'' = q @ ''.png'') = (p = q)"
  "p @ ''.jpg'' \<noteq> q @ ''.png''" "p @ ''.png'' \<noteq> q @ ''.jpg''"
proof -
  have "length ''.jpg'' = length ''.png''" by simp
  show "p @ ''.jpg'' \<noteq> q @ ''.png''"
    using append_eq_append_conv [of "''.jpg''" "''.png''" p q] by simp
  show "p @ ''.png'' \<noteq> q @ ''.jpg''"
    using append_eq_append_conv [of "''.png''" "''.jpg''" p q] by simp
qed simp_all






lemma stall_warnings_sleep [simp]: "stall_warnings (sleep n w) = stall_warnings w"
  by (simp add: sleep_def)

lemma stall_warnings_record_photo_uploaded [simp]:
  "stall_warnings (record_photo_uploaded pid w) = stall_warnings w"
  by (simp add: record_photo_uploaded_def save_photo_progress_def Let_def)







lemma stalled_facts [simp]:
  "p_photo_id (stalled photo) = p_photo_id photo" "p_success (stalled photo) = Some False"
  by (simp_all add: stalled_def)





section \<open>Rounds and retries\<close>









section \<open>At most one object per asset\<close>





lemma photos_to_download_distinct:
  "distinct (map p_photo_id all_photos) \<Longrightarrow>
   distinct (map p_photo_id (photos_to_download all_photos existing w))"
  unfolding photos_to_download_def by (rule distinct_map_filter)





section \<open>Listing cache and mutations\<close>

lemma files_list_drive:
  "files_list env c q w = (r, w1) \<Longrightarrow> drive w1 = drive w"
  by (auto simp: files_list_def external_def split: option.splits)

lemma files_list_result:
  "files_list env c q w = (Inr fs, w1) \<Longrightarrow> fs = filter q (drive w)"
  by (auto simp: files_list_def external_def split: option.splits)

lemma fresh_listing:
  assumes "contents_cache w folder = None" and "folder \<notin> new_folders w"
    and "list_drive_folder_contents env folder use_cache w = (Inr names, w')"
  shows "set names = f_name ` {f \<in> set (drive w'). f_parent f = folder}"
proof -
  from assms obtain fs w1 where
    l: "files_list env (DriveList folder) (\<lambda>f. f_parent f = folder) w = (Inr fs, w1)"
    and n: "names = remdups (map f_name fs)" and d: "drive w' = drive w1"
    by (auto simp: list_drive_folder_contents_def Let_def split: prod.splits sum.splits if_splits)
  from files_list_result [OF l] files_list_drive [OF l] n d show ?thesis by auto
qed

text \<open>
  Two of the three mutations do what the cache needs. Deleting photos from a folder and
  clearing a folder, when they return, leave no listing-cache entry for that folder; and
  a listing of a folder that has no cache entry and is not tracked as newly created is
  read from the store: it is exactly the names the folder holds.
\<close>

lemma delete_and_clear_invalidate_listing:
  "(delete_photos_from_drive env filenames folder w = (Inr n, w') \<longrightarrow>
      contents_cache w' folder = None)
   \<and> (clear_folder_contents env depth folder w = (Inr n, w') \<longrightarrow>
      contents_cache w' folder = None)
   \<and> (contents_cache w folder = None \<and> folder \<notin> new_folders w
        \<and> list_drive_folder_contents env folder True w = (Inr names, w') \<longrightarrow>
      set names = f_name ` {f \<in> set (drive w'). f_parent f = folder})"
proof (intro conjI impI)
  assume "delete_photos_from_drive env filenames folder w = (Inr n, w')"
  then show "contents_cache w' folder = None"
    by (auto simp: delete_photos_from_drive_def split: prod.splits sum.splits)
next
  assume c: "clear_folder_contents env depth folder w = (Inr n, w')"
  show "contents_cache w' folder = None"
  proof (cases depth)
    case 0
    with c show ?thesis by simp
  next
    case (Suc d)
    with c show ?thesis by (auto split: prod.splits sum.splits)
  qed
next
  assume "contents_cache w folder = None \<and> folder \<notin> new_folders w
        \<and> list_drive_folder_contents env folder True w = (Inr names, w')"
  then show "set names = f_name ` {f \<in> set (drive w'). f_parent f = folder}"
    using fresh_listing by blast
qed

lemma run_delete_B:
  "delete_photos_from_drive quiet_env [''B.jpg''] ''F'' two_photos_world =
     (Inr 1, two_photos_world\<lparr>calls := [DriveList ''F'', DriveDelete ''2''],
        drive := [\<lparr>f_id = ''1'', f_name = ''A.jpg'', f_mime = ''image/jpeg'', f_parent = ''F''\<rparr>],
        contents_cache := Map.empty\<rparr>)"
  by (simp add: delete_photos_from_drive_def files_list_def files_delete_def external_def
      quiet_env_def two_photos_world_def fresh_world_def)

lemma run_clear_F:
  "clear_folder_contents quiet_env 2 ''F'' two_photos_world =
     (Inr 2, two_photos_world\<lparr>calls := [DriveList ''F'', DriveDelete ''1'', DriveDelete ''2''],
        drive := [], contents_cache := Map.empty\<rparr>)"
  by (simp add: numeral_2_eq_2 files_list_def files_delete_def external_def
      quiet_env_def two_photos_world_def fresh_world_def folder_mime_def)

lemma run_list_after_delete:
  "list_drive_folder_contents quiet_env ''F'' True
     (two_photos_world\<lparr>calls := [DriveList ''F'', DriveDelete ''2''],
        drive := [\<lparr>f_id = ''1'', f_name = ''A.jpg'', f_mime = ''image/jpeg'', f_parent = ''F''\<rparr>],
        contents_cache := Map.empty\<rparr>) =
     (Inr [''A.jpg''],
      two_photos_world\<lparr>calls := [DriveList ''F'', DriveDelete ''2'', DriveList ''F''],
        drive := [\<lparr>f_id = ''1'', f_name = ''A.jpg'', f_mime = ''image/jpeg'', f_parent = ''F''\<rparr>],
        contents_cache := [''F'' \<mapsto> [''A.jpg'']]\<rparr>)"
  by (simp add: list_drive_folder_contents_def files_list_def external_def
      quiet_env_def two_photos_world_def fresh_world_def Let_def)

lemma delete_and_clear_invalidate_listing_example:
  "contents_cache (snd (delete_photos_from_drive quiet_env [''B.jpg''] ''F'' two_photos_world)) ''F'' = None
   \<and> contents_cache (snd (clear_folder_contents quiet_env 2 ''F'' two_photos_world)) ''F'' = None
   \<and> ''F'' \<notin> new_folders (snd (delete_photos_from_drive quiet_env [''B.jpg''] ''F'' two_photos_world))
   \<and> set [''A.jpg''] =
       f_name ` {f \<in> set [\<lparr>f_id = ''1'', f_name = ''A.jpg'', f_mime = ''image/jpeg'', f_parent = ''F''\<rparr>].
                  f_parent f = ''F''}"
proof -
  note t = delete_and_clear_invalidate_listing
  from t [THEN conjunct1, rule_format, OF run_delete_B]
  have 1: "contents_cache (snd (delete_photos_from_drive quiet_env [''B.jpg''] ''F'' two_photos_world)) ''F'' = None"
    by (simp add: run_delete_B)
  from t [THEN conjunct2, THEN conjunct1, rule_format, OF run_clear_F]
  have 2: "contents_cache (snd (clear_folder_contents quiet_env 2 ''F'' two_photos_world)) ''F'' = None"
    by (simp add: run_clear_F)
  have 3: "''F'' \<notin> new_folders (snd (delete_photos_from_drive quiet_env [''B.jpg''] ''F'' two_photos_world))"
    by (simp add: run_delete_B, simp add: two_photos_world_def fresh_world_def)
  have pre: "contents_cache (two_photos_world\<lparr>calls := [DriveList ''F'', DriveDelete ''2''],
        drive := [\<lparr>f_id = ''1'', f_name = ''A.jpg'', f_mime = ''image/jpeg'', f_parent = ''F''\<rparr>],
        contents_cache := Map.empty\<rparr>) ''F'' = None
     \<and> ''F'' \<notin> new_folders (two_photos_world\<lparr>calls := [DriveList ''F'', DriveDelete ''2''],
        drive := [\<lparr>f_id = ''1'', f_name = ''A.jpg'', f_mime = ''image/jpeg'', f_parent = ''F''\<rparr>],
        contents_cache := Map.empty\<rparr>)"
    by (simp add: two_photos_world_def fresh_world_def)
  from t [THEN conjunct2, THEN conjunct2, rule_format, OF conjI [OF conjunct1 [OF pre] conjI [OF conjunct2 [OF pre] run_list_after_delete]]]
  have 4: "set [''A.jpg''] =
       f_name ` {f \<in> set [\<lparr>f_id = ''1'', f_name = ''A.jpg'', f_mime = ''image/jpeg'', f_parent = ''F''\<rparr>].
                  f_parent f = ''F''}"
    by simp
  from 1 2 3 4 show ?thesis by blast
qed

text \<open>An upload leaves the listing cache and the set of new folders as they were,
  whatever the store answers.\<close>

lemma files_create_keeps_cache:
  "files_create env name mime parent w = (r, w') \<Longrightarrow>
   contents_cache w' = contents_cache w \<and> new_folders w' = new_folders w"
  by (auto simp: files_create_def external_def Let_def split: option.splits)

lemma upload_attempts_keeps_cache:
  "upload_attempts env name parent mime mr atts w = (r, w') \<Longrightarrow>
   contents_cache w' = contents_cache w \<and> new_folders w' = new_folders w"
proof (induction atts arbitrary: w)
  case Nil
  then show ?case by simp
next
  case (Cons a atts)
  obtain r1 w1 where fc: "files_create env name mime parent w = (r1, w1)"
    by (cases "files_create env name mime parent w")
  note s1 = files_create_keeps_cache [OF fc]
  have rec: "contents_cache w' = contents_cache w \<and> new_folders w' = new_folders w"
    if "upload_attempts env name parent mime mr atts (sleep n w1) = (r, w')" for n
    using Cons.IH [OF that] s1 by (simp add: sleep_def)
  show ?case
  proof (cases r1)
    case (Inr i)
    then show ?thesis using Cons.prems fc s1 by auto
  next
    case (Inl e)
    then show ?thesis
      using Cons.prems fc s1
      by (cases e) (auto split: if_splits dest!: rec)
  qed
qed

lemma upload_to_drive_keeps_cache:
  assumes "upload_to_drive env content name parent mime w = (r, w')"
  shows "contents_cache w' = contents_cache w" and "new_folders w' = new_folders w"
  using assms
  by (auto simp: upload_to_drive_def split: option.splits dest: upload_attempts_keeps_cache)

text \<open>
  C8. The claim fails for uploads: \<^verbatim>\<open>_upload_to_drive\<close> never touches the listing cache,
  unlike the two mutations above. Folder F was listed empty and the listing cached;
  A.jpg is uploaded into it and the upload succeeds; the next listing of F is answered
  from the cache and is still empty, while the store holds A.jpg in F. And when F was
  created by this run, the listing after the upload is empty even with the cache
  bypassed, as line 1455 does: a folder tracked as new is taken to be empty.
\<close>

theorem upload_leaves_listing_stale:
  "fst (list_drive_folder_contents quiet_env ''F'' True empty_listed_world) = Inr []
   \<and> fst (upload_to_drive quiet_env (Some ''bytes'') ''A.jpg'' ''F'' ''image/jpeg'' empty_listed_world)
       = Inr True
   \<and> fst (list_drive_folder_contents quiet_env ''F'' True
            (snd (upload_to_drive quiet_env (Some ''bytes'') ''A.jpg'' ''F'' ''image/jpeg''
                    empty_listed_world))) = Inr []
   \<and> map f_name (filter (\<lambda>f. f_parent f = ''F'')
        (drive (snd (upload_to_drive quiet_env (Some ''bytes'') ''A.jpg'' ''F'' ''image/jpeg''
                       empty_listed_world)))) = [''A.jpg'']
   \<and> fst (upload_to_drive quiet_env (Some ''bytes'') ''A.jpg'' ''F'' ''image/jpeg'' new_folder_world)
       = Inr True
   \<and> fst (list_drive_folder_contents quiet_env ''F'' False
            (snd (upload_to_drive quiet_env (Some ''bytes'') ''A.jpg'' ''F'' ''image/jpeg''
                    new_folder_world))) = Inr []
   \<and> map f_name (filter (\<lambda>f. f_parent f = ''F'')
        (drive (snd (upload_to_drive quiet_env (Some ''bytes'') ''A.jpg'' ''F'' ''image/jpeg''
                       new_folder_world)))) = [''A.jpg'']"
  by (simp add: upload_to_drive_def files_create_def external_def list_drive_folder_contents_def
      quiet_env_def empty_listed_world_def new_folder_world_def fresh_world_def upt_rec Let_def)

section \<open>Approval gate resolution\<close>

lemma ticks_refl [simp]: "ticks w w"
  unfolding ticks_def by simp

lemma ticks_trans: "ticks w w1 \<Longrightarrow> ticks w1 w2 \<Longrightarrow> ticks w w2"
  unfolding ticks_def by simp

lemma ticks_fields:
  assumes "ticks w w'"
  shows "drive w' = drive w" and "skipped_forms w' = skipped_forms w"
    and "export_cancelled w' = export_cancelled w" and "state_file w' = state_file w"
    and "progress_file w' = progress_file w" and "contents_cache w' = contents_cache w"
    and "run_stats w' = run_stats w" and "uploaded_photos w' = uploaded_photos w"
    and "new_folders w' = new_folders w" and "folder_cache w' = folder_cache w"
  using assms unfolding ticks_def by simp_all

lemma ticks_external: "external env c w = (r, w') \<Longrightarrow> ticks w w'"
  unfolding ticks_def external_def by auto

lemma ticks_sleep [simp]: "ticks w (sleep n w)"
  unfolding ticks_def sleep_def by simp

lemma ticks_send: "send_slack_message cfg env text w = (r, w') \<Longrightarrow> ticks w w'"
  unfolding send_slack_message_def
  by (auto split: if_splits prod.splits option.splits dest: ticks_external)

lemma ticks_poll: "get_slack_messages_since cfg env ts w = (r, w') \<Longrightarrow> ticks w w'"
  unfolding get_slack_messages_since_def
  by (auto split: if_splits prod.splits option.splits dest: ticks_external)

lemma poll_messages:
  assumes "get_slack_messages_since cfg env ts w = (messages, w')"
  shows "messages = [] \<or> (\<exists>n. slack_messages env n = Some messages)"
  using assms unfolding get_slack_messages_since_def
  by (auto split: if_splits prod.splits option.splits)

lemma scan_ignored:
  "\<forall>m \<in> set before. ignored ts m \<Longrightarrow> scan_messages ts (before @ rest) = scan_messages ts rest"
  by (induction before) (auto simp: ignored_def Let_def)

lemma scan_first_reply:
  assumes "first_reply ts messages text"
  shows "text \<in> {''y'', ''yes''} \<Longrightarrow> scan_messages ts messages = Some Approve"
    and "text \<in> {''s'', ''skip''} \<Longrightarrow> scan_messages ts messages = Some Skip"
    and "text \<in> {''e'', ''end''} \<Longrightarrow> scan_messages ts messages = Some End"
proof -
  from assms obtain before reply rest where m: "messages = before @ reply # rest"
    and b: "\<forall>m \<in> set before. ignored ts m"
    and r: "\<not> m_bot reply" "m_ts reply \<noteq> ts" "lower (strip (m_text reply)) = text"
    unfolding first_reply_def by blast
  have s: "scan_messages ts messages = scan_messages ts (reply # rest)"
    unfolding m using b by (rule scan_ignored)
  show "text \<in> {''y'', ''yes''} \<Longrightarrow> scan_messages ts messages = Some Approve"
    unfolding s using r by (auto simp: Let_def)
  show "text \<in> {''s'', ''skip''} \<Longrightarrow> scan_messages ts messages = Some Skip"
    unfolding s using r by (auto simp: Let_def)
  show "text \<in> {''e'', ''end''} \<Longrightarrow> scan_messages ts messages = Some End"
    unfolding s using r by (auto simp: Let_def)
qed

lemma scan_silent:
  assumes "silent env ts" and "get_slack_messages_since cfg env ts w = (messages, w')"
  shows "scan_messages ts messages = None"
proof -
  from poll_messages [OF assms(2)] assms(1) have "\<forall>m \<in> set messages. ignored ts m"
    unfolding silent_def by auto
  from scan_ignored [OF this, of "[]"] show ?thesis by simp
qed

lemma wait_loop_silent:
  assumes "silent env ts" and "wait_loop cfg env ts start timeout_ms w = (r, w')"
  shows "r = Timeout \<and> ticks w w'"
  using assms
proof (induction cfg env ts start timeout_ms w rule: wait_loop.induct)
  case (1 cfg env message_ts start_time timeout_ms w)
  show ?case
  proof (cases "now w - start_time < timeout_ms")
    case False
    with "1.prems"(2) show ?thesis by (subst (asm) wait_loop.simps) simp
  next
    case True
    obtain messages w1 where p: "get_slack_messages_since cfg env message_ts w = (messages, w1)"
      by (metis surj_pair)
    have sc: "scan_messages message_ts messages = None"
      using "1.prems"(1) p by (rule scan_silent)
    from "1.prems"(2) True p sc
    have next_round: "wait_loop cfg env message_ts start_time timeout_ms (sleep 5000 w1) = (r, w')"
      by (subst (asm) wait_loop.simps) simp
    from "1.IH" [OF True p [symmetric] sc "1.prems"(1) next_round]
    have "r = Timeout" and t: "ticks (sleep 5000 w1) w'" by simp_all
    moreover have "ticks w (sleep 5000 w1)"
      using ticks_poll [OF p] ticks_sleep [of w1 5000] by (rule ticks_trans)
    ultimately show ?thesis by (blast intro: ticks_trans)
  qed
qed

lemma identify_orphaned_photos_frame:
  assumes "identify_orphaned_photos env folder cache w = (r, w1)"
  shows "drive w1 = drive w" and "skipped_forms w1 = skipped_forms w"
  using assms
  by (auto simp: identify_orphaned_photos_def list_drive_folder_contents_def files_list_def
      external_def Let_def split: prod.splits sum.splits option.splits if_splits)

lemma first_poll:
  assumes "slack_enabled cfg"
    and "get_slack_messages_since cfg env ts w2 = (messages, w3)"
    and "scan_messages ts messages = Some r"
  shows "wait_for_slack_approval cfg env ts 5 w2 = (r, w3)"
  using assms unfolding wait_for_slack_approval_def
  by (subst wait_loop.simps) simp

text \<open>The state of the gate that the three resolutions start from: orphans exist, no
  policy applies, and the approval request was sent.\<close>

lemma gate_pending:
  assumes "identify_orphaned_photos env folder cache w = (Inr orphans, w1)" and "orphans \<noteq> []"
    and "\<not> skip_deletions cfg" and "\<not> auto_delete cfg"
    and "form_name \<notin> pre_approved_forms cfg" and "slack_enabled cfg"
    and "send_slack_message cfg env (''Photo Deletion Approval Required: '' @ form_name) w1
           = (Some ts, w2)" and "ts \<noteq> []"
  shows "cleanup_deleted_photos cfg env folder cache form_name w =
     (case wait_for_slack_approval cfg env ts 5 w2 of
        (Skip, w3) \<Rightarrow>
          (case send_slack_message cfg env (''Skipped deletion for '' @ form_name)
                  (note_skipped form_name ''user requested'' (length orphans) w3) of
             (ts, w4) \<Rightarrow> (Inr (0, Skipped), w4))
      | (End, w3) \<Rightarrow>
          (case send_slack_message cfg env ''Export process ended by user request'' w3 of
             (ts, w4) \<Rightarrow> (Inr (0, Ended), w4\<lparr>export_cancelled := True\<rparr>))
      | (Timeout, w3) \<Rightarrow>
          (case send_slack_message cfg env (''Timeout - skipped deletion for '' @ form_name)
                  (note_skipped form_name ''no response'' (length orphans) w3) of
             (ts, w4) \<Rightarrow> (Inr (0, Skipped), w4))
      | (Approve, w3) \<Rightarrow>
          (case send_slack_message cfg env (''Deleting photos from '' @ form_name) w3 of
             (ts, w4) \<Rightarrow> delete_approved env orphans folder w4))"
  using assms by (simp add: cleanup_deleted_photos_def)

lemma skipped_outcome:
  assumes "ticks w2 w3" and "drive w2 = drive w" and "skipped_forms w2 = skipped_forms w"
    and "send_slack_message cfg env text (note_skipped form_name reason n w3) = (ack, w4)"
  shows "skipped_forms w4 = skipped_forms w @ [\<lparr>sk_form = form_name, sk_reason = reason, sk_photos = n\<rparr>]
         \<and> drive w4 = drive w"
proof -
  from ticks_fields(1,2) [OF ticks_send [OF assms(4)]]
  have "drive w4 = drive w3" "skipped_forms w4 = skipped_forms w3 @
          [\<lparr>sk_form = form_name, sk_reason = reason, sk_photos = n\<rparr>]"
    by (simp_all add: note_skipped_def)
  with ticks_fields(1,2) [OF assms(1)] assms(2,3) show ?thesis by simp
qed

lemma dict_put_fresh:
  "k \<notin> fst ` set m \<Longrightarrow> dict_put k v m = m @ [(k, v)]"
  by (induction m) auto

lemma build_file_id_map_distinct:
  assumes "distinct (map f_name fs)" and "\<forall>f \<in> set fs. f_name f \<notin> fst ` set m"
  shows "build_file_id_map names fs m =
           m @ map (\<lambda>f. (f_name f, f_id f)) (filter (\<lambda>f. f_name f \<in> set names) fs)"
  using assms
proof (induction fs arbitrary: m)
  case Nil
  then show ?case by simp
next
  case (Cons f fs)
  let ?m = "if f_name f \<in> set names then dict_put (f_name f) (f_id f) m else m"
  from Cons.prems have fresh: "f_name f \<notin> fst ` set m" by simp
  have m: "?m = m @ (if f_name f \<in> set names then [(f_name f, f_id f)] else [])"
    using dict_put_fresh [OF fresh] by simp
  from Cons.prems have d: "distinct (map f_name fs)" and nf: "f_name f \<notin> f_name ` set fs"
    by simp_all
  have "\<forall>g \<in> set fs. f_name g \<notin> fst ` set ?m"
  proof
    fix g assume g: "g \<in> set fs"
    with Cons.prems(2) have "f_name g \<notin> fst ` set m" by simp
    moreover have "f_name g \<noteq> f_name f"
    proof
      assume "f_name g = f_name f"
      with g have "f_name f \<in> f_name ` set fs" by (metis imageI)
      with nf show False by simp
    qed
    ultimately show "f_name g \<notin> fst ` set ?m" unfolding m by auto
  qed
  note ih = Cons.IH [OF d this]
  show ?case
  proof (cases "f_name f \<in> set names")
    case True
    with ih dict_put_fresh [OF fresh] show ?thesis by simp
  next
    case False
    with ih show ?thesis by simp
  qed
qed

lemma files_delete_drive:
  assumes "files_delete env i w = (r, w1)"
  shows "set (drive w1) \<subseteq> set (drive w)"
    and "fails env (length (calls w)) = None \<Longrightarrow>
           r = Inr () \<and> drive w1 = filter (\<lambda>f. f_id f \<noteq> i) (drive w)
           \<and> length (calls w1) = Suc (length (calls w))"
  using assms by (auto simp: files_delete_def external_def split: option.splits)

lemma delete_by_id_subset:
  "delete_by_id env m d w = (r, w') \<Longrightarrow> set (drive w') \<subseteq> set (drive w)"
proof (induction m arbitrary: d w)
  case Nil
  then show ?case by simp
next
  case (Cons a m)
  obtain name i where a: "a = (name, i)" by (cases a)
  obtain r1 w1 where fd: "files_delete env i w = (r1, w1)" by (metis surj_pair)
  note s1 = files_delete_drive(1) [OF fd]
  from Cons.prems a fd
  consider (stop) "w' = w1"
    | (again) d' where "delete_by_id env m d' w1 = (r, w')"
    by (auto split: sum.splits exn.splits)
  then show ?case
  proof cases
    case stop
    with s1 show ?thesis by simp
  next
    case again
    from Cons.IH [OF again] s1 show ?thesis by blast
  qed
qed

lemma delete_by_id_all:
  assumes "\<forall>n. fails env n = None"
  shows "\<exists>w'. delete_by_id env m d w = (Inr (d + length m), w')
           \<and> drive w' = filter (\<lambda>f. f_id f \<notin> snd ` set m) (drive w)"
proof (induction m arbitrary: d w)
  case Nil
  then show ?case by simp
next
  case (Cons a m)
  obtain name i where a: "a = (name, i)" by (cases a)
  obtain r1 w1 where fd: "files_delete env i w = (r1, w1)" by (metis surj_pair)
  from files_delete_drive(2) [OF fd] assms
  have r1: "r1 = Inr ()" and d1: "drive w1 = filter (\<lambda>f. f_id f \<noteq> i) (drive w)" by simp_all
  from Cons.IH [of "d + 1" w1] obtain w' where
    rec: "delete_by_id env m (d + 1) w1 = (Inr (d + 1 + length m), w')"
    and dr: "drive w' = filter (\<lambda>f. f_id f \<notin> snd ` set m) (drive w1)" by blast
  have "delete_by_id env (a # m) d w = (Inr (d + length (a # m)), w')"
    using a fd r1 rec by simp
  moreover have "drive w' = filter (\<lambda>f. f_id f \<notin> snd ` set (a # m)) (drive w)"
    unfolding dr d1 a by (auto intro: filter_cong)
  ultimately show ?case by blast
qed

text \<open>What \<open>delete_photos_from_drive\<close> does to the store: it never adds a file; and when
  no request fails and the names of the folder are distinct, it removes the files of the
  folder that bear one of the names, and returns their number.\<close>

lemma delete_photos_from_drive_subset:
  assumes "delete_photos_from_drive env names folder w = (r, w')"
  shows "set (drive w') \<subseteq> set (drive w)"
proof -
  obtain r1 w1 where l: "files_list env (DriveList folder) (\<lambda>f. f_parent f = folder) w = (r1, w1)"
    by (metis surj_pair)
  have d1: "drive w1 = drive w"
    using l by (auto simp: files_list_def external_def split: option.splits)
  show ?thesis
  proof (cases r1)
    case (Inl e)
    with assms l d1 show ?thesis by (simp add: delete_photos_from_drive_def)
  next
    case (Inr fs)
    obtain r2 w2 where dl: "delete_by_id env (build_file_id_map names fs []) 0 w1 = (r2, w2)"
      by (metis surj_pair)
    from assms l Inr dl have "drive w' = drive w2"
      by (auto simp: delete_photos_from_drive_def split: sum.splits)
    with delete_by_id_subset [OF dl] d1 show ?thesis by simp
  qed
qed

lemma delete_photos_from_drive_all:
  assumes ok: "\<forall>n. fails env n = None"
    and dist: "distinct (map f_name (filter (\<lambda>f. f_parent f = folder) (drive w)))"
  shows "\<exists>w'. delete_photos_from_drive env names folder w
                 = (Inr (length (orphan_files folder names w)), w')
           \<and> drive w' = filter (\<lambda>f. f_id f \<notin> f_id ` set (orphan_files folder names w)) (drive w)"
proof -
  let ?fs = "filter (\<lambda>f. f_parent f = folder) (drive w)"
  obtain w1 where l: "files_list env (DriveList folder) (\<lambda>f. f_parent f = folder) w = (Inr ?fs, w1)"
    and d1: "drive w1 = drive w"
    using ok by (auto simp: files_list_def external_def)
  have m: "build_file_id_map names ?fs [] = map (\<lambda>f. (f_name f, f_id f)) (orphan_files folder names w)"
    using build_file_id_map_distinct [OF dist, of "[]" names]
    by (simp add: orphan_files_def)
  let ?m = "map (\<lambda>f. (f_name f, f_id f)) (orphan_files folder names w)"
  from delete_by_id_all [OF ok, of ?m 0 w1] obtain w2 where
    dl: "delete_by_id env ?m 0 w1 = (Inr (length ?m), w2)"
    and dr: "drive w2 = filter (\<lambda>f. f_id f \<notin> snd ` set ?m) (drive w1)" by auto
  have ids: "snd ` set ?m = f_id ` set (orphan_files folder names w)" by force
  have "delete_photos_from_drive env names folder w
          = (Inr (length (orphan_files folder names w)),
             w2\<lparr>contents_cache := (contents_cache w2)(folder := None)\<rparr>)"
    using l m dl by (simp add: delete_photos_from_drive_def)
  moreover have "drive (w2\<lparr>contents_cache := (contents_cache w2)(folder := None)\<rparr>)
        = filter (\<lambda>f. f_id f \<notin> f_id ` set (orphan_files folder names w)) (drive w)"
    using dr d1 ids by simp
  ultimately show ?thesis by blast
qed

lemma orphan_files_gone:
  assumes "drive w' = filter (\<lambda>f. f_id f \<notin> f_id ` set (orphan_files folder names w)) (drive w)"
  shows "orphan_files folder names w' = []"
  unfolding orphan_files_def assms
  by (auto simp: filter_empty_conv orphan_files_def)

lemma silent_polls_wait_loop:
  assumes "silent_polls cfg env ts start timeout_ms k w = Some wk"
  shows "wait_loop cfg env ts start timeout_ms w = wait_loop cfg env ts start timeout_ms wk
         \<and> ticks w wk"
  using assms
proof (induction k arbitrary: w)
  case 0
  then show ?case by simp
next
  case (Suc k)
  obtain messages w1 where p: "get_slack_messages_since cfg env ts w = (messages, w1)"
    by (metis surj_pair)
  from Suc.prems p have win: "now w - start < timeout_ms"
    and sc: "scan_messages ts messages = None"
    and rest: "silent_polls cfg env ts start timeout_ms k (sleep 5000 w1) = Some wk"
    by (auto split: if_splits option.splits)
  from Suc.IH [OF rest]
  have eq: "wait_loop cfg env ts start timeout_ms (sleep 5000 w1)
              = wait_loop cfg env ts start timeout_ms wk"
    and t: "ticks (sleep 5000 w1) wk" by simp_all
  have "wait_loop cfg env ts start timeout_ms w
          = wait_loop cfg env ts start timeout_ms (sleep 5000 w1)"
    using win p sc by (subst wait_loop.simps) simp
  moreover have "ticks w (sleep 5000 w1)"
    using ticks_poll [OF p] ticks_sleep [of w1 5000] by (rule ticks_trans)
  ultimately show ?case using eq t by (auto intro: ticks_trans)
qed

lemma later_poll:
  assumes "slack_enabled cfg"
    and "silent_polls cfg env ts (now w2) (5 * 60 * 1000) k w2 = Some wk"
  shows "now wk - now w2 < 5 * 60 * 1000 \<Longrightarrow>
         get_slack_messages_since cfg env ts wk = (messages, w3) \<Longrightarrow>
         scan_messages ts messages = Some r \<Longrightarrow>
         wait_for_slack_approval cfg env ts 5 w2 = (r, w3)"
    and "\<not> now wk - now w2 < 5 * 60 * 1000 \<Longrightarrow>
         wait_for_slack_approval cfg env ts 5 w2 = (Timeout, wk)"
proof -
  from silent_polls_wait_loop [OF assms(2)]
  have eq: "wait_loop cfg env ts (now w2) (5 * 60 * 1000) w2
              = wait_loop cfg env ts (now w2) (5 * 60 * 1000) wk" by simp
  show "wait_for_slack_approval cfg env ts 5 w2 = (r, w3)"
    if "now wk - now w2 < 5 * 60 * 1000"
      "get_slack_messages_since cfg env ts wk = (messages, w3)"
      "scan_messages ts messages = Some r"
  proof -
    have "wait_loop cfg env ts (now w2) (5 * 60 * 1000) wk = (r, w3)"
      using that by (subst wait_loop.simps) simp
    with eq assms(1) show ?thesis by (simp add: wait_for_slack_approval_def)
  qed
  show "wait_for_slack_approval cfg env ts 5 w2 = (Timeout, wk)"
    if "\<not> now wk - now w2 < 5 * 60 * 1000"
  proof -
    have "wait_loop cfg env ts (now w2) (5 * 60 * 1000) wk = (Timeout, wk)"
      using that by (subst wait_loop.simps) simp
    with eq assms(1) show ?thesis by (simp add: wait_for_slack_approval_def)
  qed
qed

text \<open>
  C6 (as amended). Orphans exist, no skip, auto-delete or pre-approved policy applies,
  and the approval request was sent. The polling loop made \<open>k\<close> rounds (none, or any
  number) that saw no reply it recognises, and stands at the head of the next round.

  If that round begins within the five minutes and the first reply it sees is yes (in
  any case, with surrounding blanks), the gate is Approved: the orphans are handed to
  \<open>delete_photos_from_drive\<close>, the result is its count with the action Approved, and
  no file is added to the store. When moreover no request fails and the names in the
  folder are distinct, every file of the folder with an orphan's name is removed,
  nothing else is, and the count is their number.

  If the first reply is skip, the gate is Skipped: nothing is deleted, the count is
  zero, and the form, the reason and the number of pending orphans are recorded.

  If the round begins after the five minutes, the wait times out and the gate is again
  Skipped with the same record but for its reason; and that is how the wait ends on a
  channel where no reply the loop recognises ever arrives.
\<close>

theorem approval_gate_resolution:
  assumes orph: "identify_orphaned_photos env folder cache w = (Inr orphans, w1)"
    and ne: "orphans \<noteq> []"
    and pol: "\<not> skip_deletions cfg" "\<not> auto_delete cfg"
      "form_name \<notin> pre_approved_forms cfg" "slack_enabled cfg"
    and sent: "send_slack_message cfg env (''Photo Deletion Approval Required: '' @ form_name) w1
           = (Some ts, w2)" "ts \<noteq> []"
    and polls: "silent_polls cfg env ts (now w2) (5 * 60 * 1000) k w2 = Some wk"
    and poll: "get_slack_messages_since cfg env ts wk = (messages, w3)"
  shows "(now wk - now w2 < 5 * 60 * 1000 \<and> first_reply ts messages ''yes'' \<longrightarrow>
            wait_for_slack_approval cfg env ts 5 w2 = (Approve, w3)
            \<and> (\<exists>r w'. cleanup_deleted_photos cfg env folder cache form_name w = (r, w')
                 \<and> (r, w') =
                     (case delete_photos_from_drive env orphans folder
                             (snd (send_slack_message cfg env
                                     (''Deleting photos from '' @ form_name) w3)) of
                        (Inl e, w') \<Rightarrow> (Inl e, w')
                      | (Inr n, w') \<Rightarrow> (Inr (n, Approved), w'))
                 \<and> set (drive w') \<subseteq> set (drive w)
                 \<and> ((\<forall>n. fails env n = None)
                       \<and> distinct (map f_name (filter (\<lambda>f. f_parent f = folder) (drive w))) \<longrightarrow>
                     r = Inr (length (orphan_files folder orphans w), Approved)
                     \<and> drive w' =
                         filter (\<lambda>f. f_id f \<notin> f_id ` set (orphan_files folder orphans w)) (drive w)
                     \<and> orphan_files folder orphans w' = [])))
       \<and> (now wk - now w2 < 5 * 60 * 1000 \<and> first_reply ts messages ''skip'' \<longrightarrow>
            wait_for_slack_approval cfg env ts 5 w2 = (Skip, w3)
            \<and> (\<exists>w'. cleanup_deleted_photos cfg env folder cache form_name w = (Inr (0, Skipped), w')
                 \<and> skipped_forms w' = skipped_forms w @
                      [\<lparr>sk_form = form_name, sk_reason = ''user requested'',
                        sk_photos = length orphans\<rparr>]
                 \<and> drive w' = drive w))
       \<and> (\<not> now wk - now w2 < 5 * 60 * 1000 \<longrightarrow>
            wait_for_slack_approval cfg env ts 5 w2 = (Timeout, wk)
            \<and> (\<exists>w'. cleanup_deleted_photos cfg env folder cache form_name w = (Inr (0, Skipped), w')
                 \<and> skipped_forms w' = skipped_forms w @
                      [\<lparr>sk_form = form_name, sk_reason = ''no response'',
                        sk_photos = length orphans\<rparr>]
                 \<and> drive w' = drive w))
       \<and> (silent env ts \<longrightarrow>
            fst (wait_for_slack_approval cfg env ts 5 w2) = Timeout
            \<and> (\<exists>w'. cleanup_deleted_photos cfg env folder cache form_name w = (Inr (0, Skipped), w')
                 \<and> skipped_forms w' = skipped_forms w @
                      [\<lparr>sk_form = form_name, sk_reason = ''no response'',
                        sk_photos = length orphans\<rparr>]
                 \<and> drive w' = drive w))"
proof -
  note pending = gate_pending [OF orph ne pol sent]
  note f1 = identify_orphaned_photos_frame [OF orph]
  have f2: "drive w2 = drive w" "skipped_forms w2 = skipped_forms w"
    using ticks_fields(1,2) [OF ticks_send [OF sent(1)]] f1 by simp_all
  have tk: "ticks w2 wk" using silent_polls_wait_loop [OF polls] by simp
  have t3: "ticks w2 w3" using tk ticks_poll [OF poll] by (rule ticks_trans)
  note later = later_poll [OF pol(4) polls]
  have yes: "wait_for_slack_approval cfg env ts 5 w2 = (Approve, w3)
            \<and> (\<exists>r w'. cleanup_deleted_photos cfg env folder cache form_name w = (r, w')
                 \<and> (r, w') =
                     (case delete_photos_from_drive env orphans folder
                             (snd (send_slack_message cfg env
                                     (''Deleting photos from '' @ form_name) w3)) of
                        (Inl e, w') \<Rightarrow> (Inl e, w')
                      | (Inr n, w') \<Rightarrow> (Inr (n, Approved), w'))
                 \<and> set (drive w') \<subseteq> set (drive w)
                 \<and> ((\<forall>n. fails env n = None)
                       \<and> distinct (map f_name (filter (\<lambda>f. f_parent f = folder) (drive w))) \<longrightarrow>
                     r = Inr (length (orphan_files folder orphans w), Approved)
                     \<and> drive w' =
                         filter (\<lambda>f. f_id f \<notin> f_id ` set (orphan_files folder orphans w)) (drive w)
                     \<and> orphan_files folder orphans w' = []))"
    if win: "now wk - now w2 < 5 * 60 * 1000" and y: "first_reply ts messages ''yes''"
  proof -
    from scan_first_reply(1) [OF y] have "scan_messages ts messages = Some Approve" by simp
    from later(1) [OF win poll this]
    have wt: "wait_for_slack_approval cfg env ts 5 w2 = (Approve, w3)" .
    obtain ack w4 where s: "send_slack_message cfg env (''Deleting photos from '' @ form_name) w3
        = (ack, w4)" by (metis surj_pair)
    obtain d w' where del: "delete_photos_from_drive env orphans folder w4 = (d, w')"
      by (metis surj_pair)
    have d4: "drive w4 = drive w"
      using ticks_fields(1) [OF ticks_send [OF s]] ticks_fields(1) [OF t3] f2(1) by simp
    have of4: "orphan_files folder orphans w4 = orphan_files folder orphans w"
      using d4 by (simp add: orphan_files_def)
    let ?r = "case d of Inl e \<Rightarrow> Inl e | Inr n \<Rightarrow> Inr (n, Approved)"
    have c: "cleanup_deleted_photos cfg env folder cache form_name w = (?r, w')"
      unfolding pending wt using s del by (simp add: delete_approved_def split: sum.splits)
    have shape: "(?r, w') =
                     (case delete_photos_from_drive env orphans folder
                             (snd (send_slack_message cfg env
                                     (''Deleting photos from '' @ form_name) w3)) of
                        (Inl e, w') \<Rightarrow> (Inl e, w')
                      | (Inr n, w') \<Rightarrow> (Inr (n, Approved), w'))"
      using s del by (simp split: sum.splits)
    have sub: "set (drive w') \<subseteq> set (drive w)"
      using delete_photos_from_drive_subset [OF del] d4 by simp
    have full: "?r = Inr (length (orphan_files folder orphans w), Approved)
                     \<and> drive w' =
                         filter (\<lambda>f. f_id f \<notin> f_id ` set (orphan_files folder orphans w)) (drive w)
                     \<and> orphan_files folder orphans w' = []"
      if ok: "\<forall>n. fails env n = None"
        and dist: "distinct (map f_name (filter (\<lambda>f. f_parent f = folder) (drive w)))"
    proof -
      from dist d4 have "distinct (map f_name (filter (\<lambda>f. f_parent f = folder) (drive w4)))"
        by simp
      from delete_photos_from_drive_all [OF ok this, of orphans] del
      have d: "d = Inr (length (orphan_files folder orphans w4))"
        and dr: "drive w' =
           filter (\<lambda>f. f_id f \<notin> f_id ` set (orphan_files folder orphans w4)) (drive w4)"
        by auto
      from dr have dr': "drive w' =
           filter (\<lambda>f. f_id f \<notin> f_id ` set (orphan_files folder orphans w)) (drive w)"
        unfolding of4 d4 .
      from d of4 orphan_files_gone [OF dr'] dr' show ?thesis by simp
    qed
    from wt c shape sub full show ?thesis by blast
  qed
  have skip: "wait_for_slack_approval cfg env ts 5 w2 = (Skip, w3)
            \<and> (\<exists>w'. cleanup_deleted_photos cfg env folder cache form_name w = (Inr (0, Skipped), w')
                 \<and> skipped_forms w' = skipped_forms w @
                      [\<lparr>sk_form = form_name, sk_reason = ''user requested'',
                        sk_photos = length orphans\<rparr>]
                 \<and> drive w' = drive w)"
    if win: "now wk - now w2 < 5 * 60 * 1000" and sk: "first_reply ts messages ''skip''"
  proof -
    from scan_first_reply(2) [OF sk] have "scan_messages ts messages = Some Skip" by simp
    from later(1) [OF win poll this]
    have wt: "wait_for_slack_approval cfg env ts 5 w2 = (Skip, w3)" .
    obtain ack w4 where s: "send_slack_message cfg env (''Skipped deletion for '' @ form_name)
         (note_skipped form_name ''user requested'' (length orphans) w3) = (ack, w4)"
      by (metis surj_pair)
    have c: "cleanup_deleted_photos cfg env folder cache form_name w = (Inr (0, Skipped), w4)"
      unfolding pending wt using s by simp
    from skipped_outcome [OF t3 f2 s] c wt show ?thesis by blast
  qed
  have late: "wait_for_slack_approval cfg env ts 5 w2 = (Timeout, wk)
            \<and> (\<exists>w'. cleanup_deleted_photos cfg env folder cache form_name w = (Inr (0, Skipped), w')
                 \<and> skipped_forms w' = skipped_forms w @
                      [\<lparr>sk_form = form_name, sk_reason = ''no response'',
                        sk_photos = length orphans\<rparr>]
                 \<and> drive w' = drive w)"
    if out: "\<not> now wk - now w2 < 5 * 60 * 1000"
  proof -
    from later(2) [OF out]
    have wt: "wait_for_slack_approval cfg env ts 5 w2 = (Timeout, wk)" .
    obtain ack w4 where s: "send_slack_message cfg env (''Timeout - skipped deletion for '' @ form_name)
         (note_skipped form_name ''no response'' (length orphans) wk) = (ack, w4)"
      by (metis surj_pair)
    have c: "cleanup_deleted_photos cfg env folder cache form_name w = (Inr (0, Skipped), w4)"
      unfolding pending wt using s by simp
    from skipped_outcome [OF tk f2 s] c wt show ?thesis by blast
  qed
  have quiet: "fst (wait_for_slack_approval cfg env ts 5 w2) = Timeout
            \<and> (\<exists>w'. cleanup_deleted_photos cfg env folder cache form_name w = (Inr (0, Skipped), w')
                 \<and> skipped_forms w' = skipped_forms w @
                      [\<lparr>sk_form = form_name, sk_reason = ''no response'',
                        sk_photos = length orphans\<rparr>]
                 \<and> drive w' = drive w)"
    if "silent env ts"
  proof -
    obtain r wt where wl: "wait_loop cfg env ts (now w2) (5 * 60 * 1000) w2 = (r, wt)"
      by (metis surj_pair)
    from wait_loop_silent [OF that wl] have r: "r = Timeout" and t: "ticks w2 wt" by simp_all
    from wl r pol(4) have wt: "wait_for_slack_approval cfg env ts 5 w2 = (Timeout, wt)"
      by (simp add: wait_for_slack_approval_def)
    obtain ack w4 where s: "send_slack_message cfg env (''Timeout - skipped deletion for '' @ form_name)
         (note_skipped form_name ''no response'' (length orphans) wt) = (ack, w4)"
      by (metis surj_pair)
    have c: "cleanup_deleted_photos cfg env folder cache form_name w = (Inr (0, Skipped), w4)"
      unfolding pending wt using s by simp
    from skipped_outcome [OF t f2 s] c wt show ?thesis by auto
  qed
  from yes skip late quiet show ?thesis by blast
qed

lemma normalised_replies:
  "lower (strip '' YES '') = ''yes''" "lower (strip ''Skip'') = ''skip''"
  by code_simp+

lemma gate_orphans:
  "identify_orphaned_photos env ''F'' [(''A'', [])] gate_world = (Inr [''B.jpg''], gate_world)"
  by (simp add: identify_orphaned_photos_def list_drive_folder_contents_def gate_world_def
      rsplit_dot_head_examples)

lemma gate_asked:
  "send_slack_message gate_cfg quiet_env (''Photo Deletion Approval Required: '' @ ''Wells'') gate_world
     = (Some ''ts'', asked_world)"
  "send_slack_message gate_cfg later_yes_env (''Photo Deletion Approval Required: '' @ ''Wells'') gate_world
     = (Some ''ts'', asked_world)"
  "send_slack_message gate_cfg later_skip_env (''Photo Deletion Approval Required: '' @ ''Wells'') gate_world
     = (Some ''ts'', asked_world)"
  "send_slack_message gate_cfg slow_slack_env (''Photo Deletion Approval Required: '' @ ''Wells'') gate_world
     = (Some ''ts'', asked_world)"
  "send_slack_message gate_cfg yes_env (''Photo Deletion Approval Required: '' @ ''Wells'') gate_world
     = (Some ''ts'', asked_world)"
  "send_slack_message gate_cfg refusing_env (''Photo Deletion Approval Required: '' @ ''Wells'') gate_world
     = (Some ''ts'', asked_world)"
  by (simp_all add: send_slack_message_def gate_cfg_def external_def quiet_env_def later_yes_env_def
      later_skip_env_def slow_slack_env_def yes_env_def refusing_env_def
      gate_world_def fresh_world_def asked_world_def)

lemma gate_waited:
  "silent_polls gate_cfg later_yes_env ''ts'' (now asked_world) (5 * 60 * 1000) 1 asked_world
     = Some waited_world"
  "silent_polls gate_cfg later_skip_env ''ts'' (now asked_world) (5 * 60 * 1000) 1 asked_world
     = Some waited_world"
  "silent_polls gate_cfg slow_slack_env ''ts'' (now asked_world) (5 * 60 * 1000) 1 asked_world
     = Some expired_world"
  "silent_polls gate_cfg quiet_env ''ts'' (now asked_world) (5 * 60 * 1000) 0 asked_world
     = Some asked_world"
  by (simp_all add: get_slack_messages_since_def gate_cfg_def external_def quiet_env_def
      later_yes_env_def later_skip_env_def slow_slack_env_def sleep_def
      gate_world_def fresh_world_def asked_world_def polled_world_def waited_world_def
      expired_world_def)

lemma gate_polled:
  "get_slack_messages_since gate_cfg later_yes_env ''ts'' waited_world = ([yes_msg], answered_world)"
  "get_slack_messages_since gate_cfg later_skip_env ''ts'' waited_world = ([skip_msg], answered_world)"
  "get_slack_messages_since gate_cfg yes_env ''ts'' asked_world = ([yes_msg], polled_world)"
  "get_slack_messages_since gate_cfg refusing_env ''ts'' asked_world = ([yes_msg], polled_world)"
  by (simp_all add: get_slack_messages_since_def gate_cfg_def external_def quiet_env_def
      later_yes_env_def later_skip_env_def yes_env_def refusing_env_def
      gate_world_def fresh_world_def asked_world_def polled_world_def waited_world_def
      answered_world_def)

lemma gate_replies:
  "first_reply ''ts'' [yes_msg] ''yes''" "first_reply ''ts'' [skip_msg] ''skip''"
  "silent quiet_env ''ts''"
proof -
  show "first_reply ''ts'' [yes_msg] ''yes''"
    unfolding first_reply_def
    by (intro exI [of _ "[]"] exI [of _ yes_msg]) (simp add: yes_msg_def normalised_replies)
  show "first_reply ''ts'' [skip_msg] ''skip''"
    unfolding first_reply_def
    by (intro exI [of _ "[]"] exI [of _ skip_msg]) (simp add: skip_msg_def normalised_replies)
  show "silent quiet_env ''ts''"
    by (simp add: silent_def quiet_env_def)
qed

lemma gate_policy:
  "\<not> skip_deletions gate_cfg" "\<not> auto_delete gate_cfg"
  "''Wells'' \<notin> pre_approved_forms gate_cfg" "slack_enabled gate_cfg"
  by (simp_all add: gate_cfg_def)

lemma gate_times:
  "now waited_world - now asked_world < 5 * 60 * 1000"
  "\<not> now expired_world - now asked_world < 5 * 60 * 1000"
  by (simp_all add: waited_world_def expired_world_def asked_world_def polled_world_def
      gate_world_def fresh_world_def)

lemma gate_store:
  "\<forall>n. fails later_yes_env n = None"
  "distinct (map f_name (filter (\<lambda>f. f_parent f = ''F'') (drive gate_world)))"
  "length (orphan_files ''F'' [''B.jpg''] gate_world) = 1"
  by (simp_all add: later_yes_env_def quiet_env_def gate_world_def orphan_files_def)

theorem approval_gate_resolution_witness:
  "now waited_world - now asked_world < 5 * 60 * 1000
   \<and> first_reply ''ts'' [yes_msg] ''yes''
   \<and> wait_for_slack_approval gate_cfg later_yes_env ''ts'' 5 asked_world = (Approve, answered_world)
   \<and> (\<forall>n. fails later_yes_env n = None)
   \<and> distinct (map f_name (filter (\<lambda>f. f_parent f = ''F'') (drive gate_world)))
   \<and> length (orphan_files ''F'' [''B.jpg''] gate_world) = 1
   \<and> (\<exists>w'. cleanup_deleted_photos gate_cfg later_yes_env ''F'' [(''A'', [])] ''Wells'' gate_world
               = (Inr (length (orphan_files ''F'' [''B.jpg''] gate_world), Approved), w')
          \<and> orphan_files ''F'' [''B.jpg''] w' = [])
   \<and> first_reply ''ts'' [skip_msg] ''skip''
   \<and> wait_for_slack_approval gate_cfg later_skip_env ''ts'' 5 asked_world = (Skip, answered_world)
   \<and> (\<exists>w'. cleanup_deleted_photos gate_cfg later_skip_env ''F'' [(''A'', [])] ''Wells'' gate_world
               = (Inr (0, Skipped), w')
          \<and> skipped_forms w' = skipped_forms gate_world @
               [\<lparr>sk_form = ''Wells'', sk_reason = ''user requested'', sk_photos = length [''B.jpg'']\<rparr>]
          \<and> drive w' = drive gate_world)
   \<and> \<not> now expired_world - now asked_world < 5 * 60 * 1000
   \<and> wait_for_slack_approval gate_cfg slow_slack_env ''ts'' 5 asked_world = (Timeout, expired_world)
   \<and> (\<exists>w'. cleanup_deleted_photos gate_cfg slow_slack_env ''F'' [(''A'', [])] ''Wells'' gate_world
               = (Inr (0, Skipped), w')
          \<and> skipped_forms w' = skipped_forms gate_world @
               [\<lparr>sk_form = ''Wells'', sk_reason = ''no response'', sk_photos = length [''B.jpg'']\<rparr>]
          \<and> drive w' = drive gate_world)
   \<and> silent quiet_env ''ts''
   \<and> (\<exists>w'. cleanup_deleted_photos gate_cfg quiet_env ''F'' [(''A'', [])] ''Wells'' gate_world
               = (Inr (0, Skipped), w')
          \<and> skipped_forms w' = skipped_forms gate_world @
               [\<lparr>sk_form = ''Wells'', sk_reason = ''no response'', sk_photos = length [''B.jpg'']\<rparr>]
          \<and> drive w' = drive gate_world)"
proof -
  have ne: "[''B.jpg''] \<noteq> []" and ts: "''ts'' \<noteq> []" by simp_all
  obtain ms3 w3 where p3: "get_slack_messages_since gate_cfg slow_slack_env ''ts'' expired_world
      = (ms3, w3)" by (metis surj_pair)
  obtain ms4 w4 where p4: "get_slack_messages_since gate_cfg quiet_env ''ts'' asked_world
      = (ms4, w4)" by (metis surj_pair)
  note y = approval_gate_resolution
    [OF gate_orphans ne gate_policy gate_asked(2) ts gate_waited(1) gate_polled(1)]
  note s = approval_gate_resolution
    [OF gate_orphans ne gate_policy gate_asked(3) ts gate_waited(2) gate_polled(2)]
  note l = approval_gate_resolution
    [OF gate_orphans ne gate_policy gate_asked(4) ts gate_waited(3) p3]
  note q = approval_gate_resolution
    [OF gate_orphans ne gate_policy gate_asked(1) ts gate_waited(4) p4]
  from y gate_times(1) gate_replies(1) gate_store
  have 1: "wait_for_slack_approval gate_cfg later_yes_env ''ts'' 5 asked_world = (Approve, answered_world)
     \<and> (\<exists>w'. cleanup_deleted_photos gate_cfg later_yes_env ''F'' [(''A'', [])] ''Wells'' gate_world
               = (Inr (length (orphan_files ''F'' [''B.jpg''] gate_world), Approved), w')
          \<and> orphan_files ''F'' [''B.jpg''] w' = [])"
    by blast
  from s gate_times(1) gate_replies(2)
  have 2: "wait_for_slack_approval gate_cfg later_skip_env ''ts'' 5 asked_world = (Skip, answered_world)
   \<and> (\<exists>w'. cleanup_deleted_photos gate_cfg later_skip_env ''F'' [(''A'', [])] ''Wells'' gate_world
               = (Inr (0, Skipped), w')
          \<and> skipped_forms w' = skipped_forms gate_world @
               [\<lparr>sk_form = ''Wells'', sk_reason = ''user requested'', sk_photos = length [''B.jpg'']\<rparr>]
          \<and> drive w' = drive gate_world)"
    by blast
  from l gate_times(2)
  have 3: "wait_for_slack_approval gate_cfg slow_slack_env ''ts'' 5 asked_world = (Timeout, expired_world)
   \<and> (\<exists>w'. cleanup_deleted_photos gate_cfg slow_slack_env ''F'' [(''A'', [])] ''Wells'' gate_world
               = (Inr (0, Skipped), w')
          \<and> skipped_forms w' = skipped_forms gate_world @
               [\<lparr>sk_form = ''Wells'', sk_reason = ''no response'', sk_photos = length [''B.jpg'']\<rparr>]
          \<and> drive w' = drive gate_world)"
    by blast
  from q gate_replies(3)
  have 4: "\<exists>w'. cleanup_deleted_photos gate_cfg quiet_env ''F'' [(''A'', [])] ''Wells'' gate_world
               = (Inr (0, Skipped), w')
          \<and> skipped_forms w' = skipped_forms gate_world @
               [\<lparr>sk_form = ''Wells'', sk_reason = ''no response'', sk_photos = length [''B.jpg'']\<rparr>]
          \<and> drive w' = drive gate_world"
    by blast
  from 1 2 3 4 gate_times gate_replies gate_store show ?thesis by blast
qed

text \<open>
  The claim as written fails where it says the orphans are deleted. With the reply yes
  in the first poll and a store that answers the delete request with status 500, the
  gate is Approved with a count of zero and the orphan B.jpg is still in the folder:
  \<^verbatim>\<open>delete_photos_from_drive\<close> logs the error and goes on. And when the folder holds
  B.jpg twice, the approved deletion removes one of the two (the identifier map keeps
  one identifier per name) and the other stays.
\<close>

theorem approved_orphan_survives_counterexample:
  "first_reply ''ts'' [yes_msg] ''yes''
   \<and> fst (cleanup_deleted_photos gate_cfg refusing_env ''F'' [(''A'', [])] ''Wells'' gate_world)
       = Inr (0, Approved)
   \<and> map f_name (orphan_files ''F'' [''B.jpg'']
        (snd (cleanup_deleted_photos gate_cfg refusing_env ''F'' [(''A'', [])] ''Wells'' gate_world)))
       = [''B.jpg'']
   \<and> fst (cleanup_deleted_photos gate_cfg yes_env ''F'' [(''A'', [])] ''Wells'' twins_world)
       = Inr (1, Approved)
   \<and> map f_id (orphan_files ''F'' [''B.jpg'']
        (snd (cleanup_deleted_photos gate_cfg yes_env ''F'' [(''A'', [])] ''Wells'' twins_world)))
       = [''2'']"
proof -
  have ne: "[''B.jpg''] \<noteq> []" and ts: "''ts'' \<noteq> []" by simp_all
  have sc: "scan_messages ''ts'' [yes_msg] = Some Approve"
    using scan_first_reply(1) [OF gate_replies(1)] by simp
  from first_poll [OF gate_policy(4) gate_polled(4) sc]
  have w: "wait_for_slack_approval gate_cfg refusing_env ''ts'' 5 asked_world = (Approve, polled_world)" .
  have refused: "cleanup_deleted_photos gate_cfg refusing_env ''F'' [(''A'', [])] ''Wells'' gate_world
      = (Inr (0, Approved),
         gate_world\<lparr>calls := [SlackPost ''Photo Deletion Approval Required: Wells'',
            SlackHistory ''ts'', SlackPost ''Deleting photos from Wells'', DriveList ''F'',
            DriveDelete ''2''], contents_cache := Map.empty\<rparr>)"
    unfolding gate_pending [OF gate_orphans ne gate_policy gate_asked(6) ts] w
    by (simp add: send_slack_message_def gate_cfg_def external_def quiet_env_def yes_env_def
        refusing_env_def polled_world_def gate_world_def fresh_world_def delete_approved_def
        delete_photos_from_drive_def files_list_def files_delete_def)
  let ?asked = "twins_world\<lparr>calls := [SlackPost ''Photo Deletion Approval Required: Wells'']\<rparr>"
  let ?polled = "twins_world\<lparr>calls := [SlackPost ''Photo Deletion Approval Required: Wells'',
                                        SlackHistory ''ts'']\<rparr>"
  have o2: "identify_orphaned_photos yes_env ''F'' [(''A'', [])] twins_world
      = (Inr [''B.jpg''], twins_world)"
    by (simp add: identify_orphaned_photos_def list_drive_folder_contents_def twins_world_def
        rsplit_dot_head_examples)
  have a2: "send_slack_message gate_cfg yes_env (''Photo Deletion Approval Required: '' @ ''Wells'')
      twins_world = (Some ''ts'', ?asked)"
    by (simp add: send_slack_message_def gate_cfg_def external_def quiet_env_def yes_env_def
        twins_world_def fresh_world_def)
  have p2: "get_slack_messages_since gate_cfg yes_env ''ts'' ?asked = ([yes_msg], ?polled)"
    by (simp add: get_slack_messages_since_def gate_cfg_def external_def quiet_env_def yes_env_def
        twins_world_def fresh_world_def)
  from first_poll [OF gate_policy(4) p2 sc]
  have w2: "wait_for_slack_approval gate_cfg yes_env ''ts'' 5 ?asked = (Approve, ?polled)" .
  have twins: "cleanup_deleted_photos gate_cfg yes_env ''F'' [(''A'', [])] ''Wells'' twins_world
      = (Inr (1, Approved),
         twins_world\<lparr>calls := [SlackPost ''Photo Deletion Approval Required: Wells'',
            SlackHistory ''ts'', SlackPost ''Deleting photos from Wells'', DriveList ''F'',
            DriveDelete ''3''],
          drive := [\<lparr>f_id = ''2'', f_name = ''B.jpg'', f_mime = ''image/jpeg'', f_parent = ''F''\<rparr>],
          contents_cache := Map.empty\<rparr>)"
    unfolding gate_pending [OF o2 ne gate_policy a2 ts] w2
    by (simp add: send_slack_message_def gate_cfg_def external_def quiet_env_def yes_env_def
        twins_world_def fresh_world_def delete_approved_def
        delete_photos_from_drive_def files_list_def files_delete_def)
  show ?thesis
    unfolding refused twins using gate_replies(1)
    by (simp add: orphan_files_def gate_world_def twins_world_def fresh_world_def)
qed


end
